theory Spec2Isabelle
  imports Main "HOL-Library.Word"
begin

unbundle bit_operations_syntax

section \<open>Errors\<close>

text \<open>
  The encoder has no recoverable errors. A failed \<^verbatim>\<open>DCHECK\<close>/\<^verbatim>\<open>CHECK\<close> aborts the
  (debug) process: \<open>PreconditionViolation\<close>. Reading a vector outside its bounds or
  dereferencing a null bit vector is undefined in C++; the model stops with
  \<open>OutOfBounds\<close> respectively \<open>NullDereference\<close> instead of inventing a value.
\<close>

datatype error = PreconditionViolation | OutOfBounds | NullDereference

definition and_then :: "error + 'a \<Rightarrow> ('a \<Rightarrow> error + 'b) \<Rightarrow> error + 'b" where
  "and_then r f = (case r of Inl e \<Rightarrow> Inl e | Inr x \<Rightarrow> f x)"

definition at_index :: "'a list \<Rightarrow> nat \<Rightarrow> error + 'a" where
  "at_index xs i = (if i < length xs then Inr (xs ! i) else Inl OutOfBounds)"

section \<open>Collaborator types\<close>

subsection \<open>Bit vectors\<close>

text \<open>
  Modelled from the spec: \<^verbatim>\<open>BitVector\<close>/\<^verbatim>\<open>ArenaBitVector\<close> (base/bit_vector.h) are not
  among the sources. The spec asks for an expandable bit vector with set-bit,
  is-bit-set, highest-set-bit, popcount and equality. A vector is the list of its
  bits, bit \<open>i\<close> at position \<open>i\<close>; \<open>Create n\<close> is the zeroed vector of width \<open>n\<close>;
  \<open>SetBit\<close> beyond the width grows the (expandable) vector.
\<close>

type_synonym BitVector = "bool list"

definition Create :: "nat \<Rightarrow> BitVector" where
  "Create n = replicate n False"

definition IsBitSet :: "BitVector \<Rightarrow> nat \<Rightarrow> bool" where
  "IsBitSet v i = (i < length v \<and> v ! i)"

definition SetBit :: "BitVector \<Rightarrow> nat \<Rightarrow> BitVector" where
  "SetBit v i =
     (if i < length v then v[i := True]
      else v @ replicate (i - length v) False @ [True])"

definition NumSetBits :: "BitVector \<Rightarrow> nat" where
  "NumSetBits v = length (filter (\<lambda>b. b) v)"

fun GetHighestBitSet :: "BitVector \<Rightarrow> int" where
  "GetHighestBitSet [] = - 1"
| "GetHighestBitSet (b # bs) =
     (let h = GetHighestBitSet bs
      in if 0 \<le> h then h + 1 else if b then 0 else - 1)"

definition Equal :: "BitVector \<Rightarrow> BitVector \<Rightarrow> bool" where
  "Equal a b = (a = b)"

subsection \<open>Dex register locations\<close>

text \<open>
  Modelled from the spec: \<^verbatim>\<open>DexRegisterLocation\<close> (dex_register_location.h) is not
  among the sources. A location is a (kind, value) pair; the kinds are a closed
  enum of \<open>None\<close>, the short kinds, and two long-form kinds that are excluded while
  streaming. \<open>Kind_to_uint32\<close> is the enum's numeric value as
  \<^verbatim>\<open>static_cast<uint32_t>(kind)\<close> reads it; it only feeds the rolling hash.
\<close>

datatype Kind =
    kInStack | kInRegister | kInRegisterHigh | kInFpuRegister | kInFpuRegisterHigh
  | kConstant | kInStackLargeOffset | kConstantLargeValue | kNone

fun Kind_to_uint32 :: "Kind \<Rightarrow> 32 word" where
  "Kind_to_uint32 kInStack = 0"
| "Kind_to_uint32 kInRegister = 1"
| "Kind_to_uint32 kInRegisterHigh = 2"
| "Kind_to_uint32 kInFpuRegister = 3"
| "Kind_to_uint32 kInFpuRegisterHigh = 4"
| "Kind_to_uint32 kConstant = 5"
| "Kind_to_uint32 kInStackLargeOffset = 6"
| "Kind_to_uint32 kConstantLargeValue = 7"
| "Kind_to_uint32 kNone = 255"

fun IsShortLocationKind :: "Kind \<Rightarrow> bool" where
  "IsShortLocationKind kInStackLargeOffset = False"
| "IsShortLocationKind kConstantLargeValue = False"
| "IsShortLocationKind kNone = False"
| "IsShortLocationKind _ = True"

datatype DexRegisterLocation = DexRegisterLocation (GetKind: Kind) (GetValue: "32 word")

subsection \<open>Methods and instruction sets\<close>

text \<open>
  Modelled from the spec: \<^verbatim>\<open>ArtMethod\<close>, \<^verbatim>\<open>DexFile\<close> and \<^verbatim>\<open>InstructionSet\<close> are not
  among the sources. A method pointer is its 64-bit address (0 is \<^verbatim>\<open>nullptr\<close>); what
  the encoder reads through the pointer is the method's dex method index and its dex
  file, here an identifier compared by equality. The instruction set only fixes the
  native-PC compression factor (1, 2 or 4).
\<close>

record ArtMethod =
  address :: "64 word"
  dex_method_index :: "32 word"
  dex_file :: nat

datatype InstructionSet = kArm | kArm64 | kThumb2 | kX86 | kX86_64 | kMips | kMips64

fun GetInstructionSetInstructionAlignment :: "InstructionSet \<Rightarrow> 32 word" where
  "GetInstructionSetInstructionAlignment kThumb2 = 2"
| "GetInstructionSetInstructionAlignment kX86 = 1"
| "GetInstructionSetInstructionAlignment kX86_64 = 1"
| "GetInstructionSetInstructionAlignment _ = 4"

definition FromOffset :: "32 word \<Rightarrow> InstructionSet \<Rightarrow> 32 word" where
  "FromOffset offset isa = offset div GetInstructionSetInstructionAlignment isa"

definition kDexNoIndex :: "32 word" where
  "kDexNoIndex = 0xFFFFFFFF"

section \<open>The encoder's data model\<close>

text \<open>
  The structs of stack_map_stream.h, field by field. \<^verbatim>\<open>uint32_t\<close> values that are
  compared against sentinels or take part in wrapping arithmetic are 32-bit words;
  \<^verbatim>\<open>size_t\<close> indices and sizes are naturals. A \<^verbatim>\<open>BitVector*\<close> is an optional bit
  vector (\<open>None\<close> is \<^verbatim>\<open>nullptr\<close>). The fields of \<^verbatim>\<open>InlineInfoEntry\<close> carry the prefix
  \<open>ii_\<close>, since a record field is a global name, and the members' trailing
  underscore is dropped (\<open>stack_maps\<close> is \<^verbatim>\<open>stack_maps_\<close>), since a name cannot end
  with one.
\<close>

record StackMapEntry =
  dex_pc :: "32 word"
  native_pc_code_offset :: "32 word"
  register_mask :: "32 word"
  sp_mask :: "BitVector option"
  num_dex_registers :: "32 word"
  inlining_depth :: "8 word"
  dex_register_locations_start_index :: nat
  inline_infos_start_index :: nat
  live_dex_registers_mask :: "BitVector option"
  dex_register_map_hash :: "32 word"
  same_dex_register_map_as :: nat
  stack_mask_index :: nat
  register_mask_index :: nat

record InlineInfoEntry =
  ii_dex_pc :: "32 word"
  ii_method :: "64 word"
  ii_method_index :: "32 word"
  ii_num_dex_registers :: "32 word"
  ii_live_dex_registers_mask :: "BitVector option"
  ii_dex_register_locations_start_index :: nat

text \<open>\<^verbatim>\<open>StackMapEntry()\<close> and \<^verbatim>\<open>InlineInfoEntry()\<close>: value initialisation, every field zero.\<close>

definition StackMapEntry_default :: StackMapEntry where
  "StackMapEntry_default =
     \<lparr> dex_pc = 0, native_pc_code_offset = 0, register_mask = 0, sp_mask = None,
       num_dex_registers = 0, inlining_depth = 0,
       dex_register_locations_start_index = 0, inline_infos_start_index = 0,
       live_dex_registers_mask = None, dex_register_map_hash = 0,
       same_dex_register_map_as = 0, stack_mask_index = 0, register_mask_index = 0 \<rparr>"

definition InlineInfoEntry_default :: InlineInfoEntry where
  "InlineInfoEntry_default =
     \<lparr> ii_dex_pc = 0, ii_method = 0, ii_method_index = 0, ii_num_dex_registers = 0,
       ii_live_dex_registers_mask = None, ii_dex_register_locations_start_index = 0 \<rparr>"

definition kNoSameDexMapFound :: nat where
  "kNoSameDexMapFound = 4294967295"

record StackMapStream =
  instruction_set :: InstructionSet
  stack_maps :: "StackMapEntry list"
  location_catalog_entries :: "DexRegisterLocation list"
  location_catalog_entries_indices :: "DexRegisterLocation \<rightharpoonup> nat"
  dex_register_locations :: "nat list"
  inline_infos :: "InlineInfoEntry list"
  stack_masks :: "8 word list"
  register_masks :: "32 word list"
  stack_mask_max :: int
  dex_pc_max :: "32 word"
  register_mask_max :: "32 word"
  number_of_stack_maps_with_inline_info :: nat
  dex_map_hash_to_stack_map_indices :: "32 word \<rightharpoonup> nat list"
  current_entry :: StackMapEntry
  current_inline_info :: InlineInfoEntry
  code_info_encoding :: "8 word list"
  needed_size :: nat
  current_dex_register :: "32 word"
  in_inline_frame :: bool

text \<open>
  Modelled from the spec: the constructor is in stack_map_stream.h. All containers
  start empty, the running maxima at their neutral values (\<open>-1\<close> for the highest
  stack-mask bit), no entry and no inline frame open.
\<close>

definition StackMapStream_init :: "InstructionSet \<Rightarrow> StackMapStream" where
  "StackMapStream_init isa =
     \<lparr> instruction_set = isa, stack_maps = [], location_catalog_entries = [],
       location_catalog_entries_indices = Map.empty, dex_register_locations = [],
       inline_infos = [], stack_masks = [], register_masks = [],
       stack_mask_max = - 1, dex_pc_max = 0, register_mask_max = 0,
       number_of_stack_maps_with_inline_info = 0,
       dex_map_hash_to_stack_map_indices = Map.empty,
       current_entry = StackMapEntry_default,
       current_inline_info = InlineInfoEntry_default,
       code_info_encoding = [], needed_size = 0, current_dex_register = 0,
       in_inline_frame = False \<rparr>"

section \<open>The streaming operations\<close>

definition BeginStackMapEntry ::
  "32 word \<Rightarrow> 32 word \<Rightarrow> 32 word \<Rightarrow> BitVector option \<Rightarrow> 32 word \<Rightarrow> 8 word
     \<Rightarrow> StackMapStream \<Rightarrow> error + StackMapStream" where
  "BeginStackMapEntry dex_pc' native_pc_offset register_mask' sp_mask' num_dex_registers'
       inlining_depth' s =
     (if dex_pc (current_entry s) \<noteq> 0 then Inl PreconditionViolation
      else if dex_pc' = - 1 then Inl PreconditionViolation
      else Inr (s
        \<lparr> current_entry := (current_entry s)
            \<lparr> dex_pc := dex_pc',
              native_pc_code_offset := FromOffset native_pc_offset (instruction_set s),
              register_mask := register_mask',
              sp_mask := sp_mask',
              num_dex_registers := num_dex_registers',
              inlining_depth := inlining_depth',
              dex_register_locations_start_index := length (dex_register_locations s),
              inline_infos_start_index := length (inline_infos s),
              dex_register_map_hash := 0,
              same_dex_register_map_as := kNoSameDexMapFound,
              stack_mask_index := 0,
              live_dex_registers_mask :=
                (if num_dex_registers' \<noteq> 0 then Some (Create (unat num_dex_registers'))
                 else None) \<rparr>,
          stack_mask_max :=
            (case sp_mask' of
               None \<Rightarrow> stack_mask_max s
             | Some m \<Rightarrow> max (stack_mask_max s) (GetHighestBitSet m)),
          number_of_stack_maps_with_inline_info :=
            (if inlining_depth' > 0 then number_of_stack_maps_with_inline_info s + 1
             else number_of_stack_maps_with_inline_info s),
          dex_pc_max := max (dex_pc_max s) dex_pc',
          register_mask_max := max (register_mask_max s) register_mask',
          current_dex_register := 0 \<rparr>))"

text \<open>
  The catalog part of \<^verbatim>\<open>AddDexRegisterEntry\<close>: look the location up in the companion
  hash map; reuse its index, or append it to the catalog and record the new index.
  Either way the index is appended to the shared index array.
\<close>

definition intern_location :: "DexRegisterLocation \<Rightarrow> StackMapStream \<Rightarrow> StackMapStream" where
  "intern_location location s =
     (case location_catalog_entries_indices s location of
        Some i \<Rightarrow> s \<lparr> dex_register_locations := dex_register_locations s @ [i] \<rparr>
      | None \<Rightarrow>
          (let index = length (location_catalog_entries s)
           in s \<lparr> location_catalog_entries := location_catalog_entries s @ [location],
                  dex_register_locations := dex_register_locations s @ [index],
                  location_catalog_entries_indices :=
                    (location_catalog_entries_indices s)(location \<mapsto> index) \<rparr>))"

definition AddDexRegisterEntry ::
  "Kind \<Rightarrow> 32 word \<Rightarrow> StackMapStream \<Rightarrow> error + StackMapStream" where
  "AddDexRegisterEntry kind v s =
     (if kind \<noteq> kNone then
        (if \<not> IsShortLocationKind kind then Inl PreconditionViolation
         else
           (let s1 = intern_location (DexRegisterLocation kind v) s;
                cur = current_dex_register s1
            in if in_inline_frame s1 then
                 (if \<not> cur < ii_num_dex_registers (current_inline_info s1)
                  then Inl PreconditionViolation
                  else (case ii_live_dex_registers_mask (current_inline_info s1) of
                          None \<Rightarrow> Inl NullDereference
                        | Some m \<Rightarrow>
                            Inr (s1 \<lparr> current_inline_info := (current_inline_info s1)
                                        \<lparr> ii_live_dex_registers_mask := Some (SetBit m (unat cur)) \<rparr>,
                                      current_dex_register := cur + 1 \<rparr>)))
               else
                 (if \<not> cur < num_dex_registers (current_entry s1)
                  then Inl PreconditionViolation
                  else (case live_dex_registers_mask (current_entry s1) of
                          None \<Rightarrow> Inl NullDereference
                        | Some m \<Rightarrow>
                            Inr (s1 \<lparr> current_entry := (current_entry s1)
                                        \<lparr> live_dex_registers_mask := Some (SetBit m (unat cur)),
                                          dex_register_map_hash :=
                                            dex_register_map_hash (current_entry s1)
                                              + push_bit (unat (cur mod 32)) 1
                                              + v
                                              + Kind_to_uint32 kind \<rparr>,
                                      current_dex_register := cur + 1 \<rparr>)))))
      else Inr (s \<lparr> current_dex_register := current_dex_register s + 1 \<rparr>))"

text \<open>
  \<open>encode_art_method\<close> is the answer of the policy function
  \<^verbatim>\<open>EncodeArtMethodInInlineInfo(method)\<close>, which is not among the sources.
\<close>

definition BeginInlineInfoEntry ::
  "bool \<Rightarrow> ArtMethod \<Rightarrow> 32 word \<Rightarrow> 32 word \<Rightarrow> nat
     \<Rightarrow> StackMapStream \<Rightarrow> error + StackMapStream" where
  "BeginInlineInfoEntry encode_art_method method dex_pc' num_dex_registers' outer_dex_file s =
     (if in_inline_frame s then Inl PreconditionViolation
      else if \<not> encode_art_method \<and> dex_pc' \<noteq> - 1 \<and> outer_dex_file \<noteq> dex_file method
        then Inl PreconditionViolation
      else Inr (s
        \<lparr> in_inline_frame := True,
          current_inline_info :=
            (if encode_art_method
             then (current_inline_info s) \<lparr> ii_method := address method \<rparr>
             else (current_inline_info s) \<lparr> ii_method_index := dex_method_index method \<rparr>)
            \<lparr> ii_dex_pc := dex_pc',
              ii_num_dex_registers := num_dex_registers',
              ii_dex_register_locations_start_index := length (dex_register_locations s),
              ii_live_dex_registers_mask :=
                (if num_dex_registers' \<noteq> 0 then Some (Create (unat num_dex_registers'))
                 else None) \<rparr>,
          current_dex_register := 0 \<rparr>))"

definition EndInlineInfoEntry :: "StackMapStream \<Rightarrow> error + StackMapStream" where
  "EndInlineInfoEntry s =
     (if \<not> in_inline_frame s then Inl PreconditionViolation
      else if current_dex_register s \<noteq> ii_num_dex_registers (current_inline_info s)
        then Inl PreconditionViolation
      else Inr (s \<lparr> in_inline_frame := False,
                    inline_infos := inline_infos s @ [current_inline_info s],
                    current_inline_info := InlineInfoEntry_default \<rparr>))"

subsection \<open>The dex-map similarity index\<close>

definition NumSetBits_opt :: "BitVector option \<Rightarrow> nat" where
  "NumSetBits_opt m = (case m of None \<Rightarrow> 0 | Some v \<Rightarrow> NumSetBits v)"

text \<open>
  \<^verbatim>\<open>std::equal(a_begin, a_begin + n, b_begin)\<close> over the shared index array: the two
  slices of length \<open>n\<close>. The three \<^verbatim>\<open>DCHECK_LE\<close> before it keep both slices inside
  the array.
\<close>

definition slice :: "'a list \<Rightarrow> nat \<Rightarrow> nat \<Rightarrow> 'a list" where
  "slice xs start n = take n (drop start xs)"

definition HaveTheSameDexMaps ::
  "StackMapStream \<Rightarrow> StackMapEntry \<Rightarrow> StackMapEntry \<Rightarrow> error + bool" where
  "HaveTheSameDexMaps s a b =
     (case (live_dex_registers_mask a, live_dex_registers_mask b) of
        (None, None) \<Rightarrow> Inr True
      | (None, Some mb) \<Rightarrow> Inr False
      | (Some ma, None) \<Rightarrow> Inr False
      | (Some ma, Some mb) \<Rightarrow>
          (if num_dex_registers a \<noteq> num_dex_registers b then Inr False
           else if num_dex_registers a \<noteq> 0 then
             (if \<not> Equal ma mb then Inr False
              else
                (let n = NumSetBits ma; locs = dex_register_locations s
                 in if \<not> n \<le> length locs then Inl PreconditionViolation
                    else if \<not> dex_register_locations_start_index a \<le> length locs - n
                      then Inl PreconditionViolation
                    else if \<not> dex_register_locations_start_index b \<le> length locs - n
                      then Inl PreconditionViolation
                    else Inr (slice locs (dex_register_locations_start_index a) n
                               = slice locs (dex_register_locations_start_index b) n)))
           else Inr True))"

text \<open>\<^verbatim>\<open>GetStackMap(i)\<close> is \<^verbatim>\<open>stack_maps[i]\<close> (stack_map_stream.h).\<close>

definition GetStackMap :: "StackMapStream \<Rightarrow> nat \<Rightarrow> error + StackMapEntry" where
  "GetStackMap s i = at_index (stack_maps s) i"

text \<open>The collision loop of \<^verbatim>\<open>FindEntryWithTheSameDexMap\<close>: the first candidate that matches.\<close>

fun find_same :: "StackMapStream \<Rightarrow> nat list \<Rightarrow> error + nat option" where
  "find_same s [] = Inr None"
| "find_same s (test_entry_index # rest) =
     and_then (GetStackMap s test_entry_index) (\<lambda>a.
       and_then (HaveTheSameDexMaps s a (current_entry s)) (\<lambda>same.
         if same then Inr (Some test_entry_index) else find_same s rest))"

definition FindEntryWithTheSameDexMap :: "StackMapStream \<Rightarrow> error + (nat \<times> StackMapStream)" where
  "FindEntryWithTheSameDexMap s =
     (let current_entry_index = length (stack_maps s);
          h = dex_register_map_hash (current_entry s)
      in case dex_map_hash_to_stack_map_indices s h of
           None \<Rightarrow>
             Inr (kNoSameDexMapFound,
                  s \<lparr> dex_map_hash_to_stack_map_indices :=
                        (dex_map_hash_to_stack_map_indices s)(h \<mapsto> [current_entry_index]) \<rparr>)
         | Some bucket \<Rightarrow>
             and_then (find_same s bucket) (\<lambda>r.
               case r of
                 Some test_entry_index \<Rightarrow> Inr (test_entry_index, s)
               | None \<Rightarrow>
                   Inr (kNoSameDexMapFound,
                        s \<lparr> dex_map_hash_to_stack_map_indices :=
                              (dex_map_hash_to_stack_map_indices s)
                                (h \<mapsto> bucket @ [current_entry_index]) \<rparr>)))"

definition EndStackMapEntry :: "StackMapStream \<Rightarrow> error + StackMapStream" where
  "EndStackMapEntry s =
     and_then (FindEntryWithTheSameDexMap s) (\<lambda>(same, s1).
       Inr (s1 \<lparr> stack_maps :=
                   stack_maps s1 @ [(current_entry s1) \<lparr> same_dex_register_map_as := same \<rparr>],
                 current_entry := StackMapEntry_default \<rparr>))"

subsection \<open>Call sequences\<close>

datatype op =
    OpBeginStackMapEntry "32 word" "32 word" "32 word" "BitVector option" "32 word" "8 word"
  | OpAddDexRegisterEntry Kind "32 word"
  | OpBeginInlineInfoEntry bool ArtMethod "32 word" "32 word" nat
  | OpEndInlineInfoEntry
  | OpEndStackMapEntry

fun step :: "op \<Rightarrow> StackMapStream \<Rightarrow> error + StackMapStream" where
  "step (OpBeginStackMapEntry pc npc rm sp n d) s = BeginStackMapEntry pc npc rm sp n d s"
| "step (OpAddDexRegisterEntry k v) s = AddDexRegisterEntry k v s"
| "step (OpBeginInlineInfoEntry enc m pc n f) s = BeginInlineInfoEntry enc m pc n f s"
| "step OpEndInlineInfoEntry s = EndInlineInfoEntry s"
| "step OpEndStackMapEntry s = EndStackMapEntry s"

fun run :: "op list \<Rightarrow> StackMapStream \<Rightarrow> error + StackMapStream" where
  "run [] s = Inr s"
| "run (x # xs) s = and_then (step x s) (run xs)"

text \<open>The register count that bounds the cursor: the open inline frame's, else the open entry's.\<close>

definition applicable_num_dex_registers :: "StackMapStream \<Rightarrow> 32 word" where
  "applicable_num_dex_registers s =
     (if in_inline_frame s then ii_num_dex_registers (current_inline_info s)
      else num_dex_registers (current_entry s))"

section \<open>The encoding sizer\<close>

text \<open>\<^verbatim>\<open>High32Bits\<close> and \<^verbatim>\<open>Low32Bits\<close> (base/casts.h): the two halves of a 64-bit value.\<close>

definition High32Bits :: "64 word \<Rightarrow> 32 word" where
  "High32Bits x = ucast (drop_bit 32 x)"

definition Low32Bits :: "64 word \<Rightarrow> 32 word" where
  "Low32Bits x = ucast x"

text \<open>
  \<^verbatim>\<open>ComputeInlineInfoEncoding\<close>, lines 239-262: the running maxima of the method index,
  the dex PC and the extra data over the inline frames, which the function then hands
  to \<^verbatim>\<open>SetFromSizes\<close>. \<open>inline_maxima_update\<close> is the body of the inner loop for one
  frame, \<open>inline_maxima_frames\<close> the inner loop over \<open>j < inlining_depth\<close> with its
  running \<open>inline_info_index\<close>, \<open>inline_maxima_entries\<close> the loop over the stack maps.
  The closing \<^verbatim>\<open>DCHECK_EQ(inline_info_index, inline_infos_.size())\<close> is the last check.
\<close>

type_synonym inline_maxima = "32 word \<times> 32 word \<times> 32 word"

definition inline_maxima_update :: "InlineInfoEntry \<Rightarrow> inline_maxima \<Rightarrow> inline_maxima" where
  "inline_maxima_update inline_entry acc =
     (case acc of (mi_max, pc_max, ed_max) \<Rightarrow>
        ((if ii_method inline_entry = 0
          then max mi_max (ii_method_index inline_entry)
          else max mi_max (High32Bits (ii_method inline_entry))),
         (if ii_dex_pc inline_entry \<noteq> kDexNoIndex
             \<and> (pc_max = kDexNoIndex \<or> pc_max < ii_dex_pc inline_entry)
          then ii_dex_pc inline_entry else pc_max),
         (if ii_method inline_entry = 0
          then max ed_max 1
          else max ed_max (Low32Bits (ii_method inline_entry)))))"

fun inline_maxima_frames ::
  "InlineInfoEntry list \<Rightarrow> nat \<Rightarrow> nat \<Rightarrow> inline_maxima \<Rightarrow> error + (nat \<times> inline_maxima)" where
  "inline_maxima_frames infos 0 inline_info_index acc = Inr (inline_info_index, acc)"
| "inline_maxima_frames infos (Suc j) inline_info_index acc =
     and_then (at_index infos inline_info_index) (\<lambda>inline_entry.
       inline_maxima_frames infos j (Suc inline_info_index)
         (inline_maxima_update inline_entry acc))"

fun inline_maxima_entries ::
  "InlineInfoEntry list \<Rightarrow> StackMapEntry list \<Rightarrow> nat \<Rightarrow> inline_maxima
     \<Rightarrow> error + (nat \<times> inline_maxima)" where
  "inline_maxima_entries infos [] inline_info_index acc = Inr (inline_info_index, acc)"
| "inline_maxima_entries infos (entry # rest) inline_info_index acc =
     and_then (inline_maxima_frames infos (unat (inlining_depth entry)) inline_info_index acc)
       (\<lambda>(i, acc'). inline_maxima_entries infos rest i acc')"

definition ComputeInlineInfoMaxima :: "StackMapStream \<Rightarrow> error + inline_maxima" where
  "ComputeInlineInfoMaxima s =
     and_then (inline_maxima_entries (inline_infos s) (stack_maps s) 0 (0, kDexNoIndex, 0))
       (\<lambda>(inline_info_index, acc).
          if inline_info_index \<noteq> length (inline_infos s) then Inl PreconditionViolation
          else Inr acc)"

section \<open>The mask interners\<close>

text \<open>
  \<^verbatim>\<open>std::vector::resize(n, v)\<close>, and \<^verbatim>\<open>std::unordered_map::emplace\<close> on a table kept in
  insertion order: an existing key keeps its value, a new key is added; either way
  the value now stored under the key is returned (\<^verbatim>\<open>.first->second\<close>). The table's
  \<^verbatim>\<open>size()\<close> is its length.
\<close>

definition resize :: "'a list \<Rightarrow> nat \<Rightarrow> 'a \<Rightarrow> 'a list" where
  "resize xs n v = take n xs @ replicate (n - length xs) v"

definition emplace :: "('k \<times> 'v) list \<Rightarrow> 'k \<Rightarrow> 'v \<Rightarrow> ('k \<times> 'v) list \<times> 'v" where
  "emplace m k v =
     (case map_of m k of Some v' \<Rightarrow> (m, v') | None \<Rightarrow> (m @ [(k, v)], v))"

text \<open>
  \<^verbatim>\<open>PrepareRegisterMasks\<close>. The loop body writes \<^verbatim>\<open>register_masks_[index]\<close> whether or not the
  key was new; a write past the end of the vector is \<open>OutOfBounds\<close>. The loop returns
  the stack maps with their \<open>register_mask_index\<close> set, the table and the vector.
\<close>

fun register_masks_loop ::
  "StackMapEntry list \<Rightarrow> (32 word \<times> nat) list \<Rightarrow> 32 word list
     \<Rightarrow> error + (StackMapEntry list \<times> (32 word \<times> nat) list \<times> 32 word list)" where
  "register_masks_loop [] dedupe masks = Inr ([], dedupe, masks)"
| "register_masks_loop (stack_map # rest) dedupe masks =
     (let index = length dedupe;
          (dedupe', found) = emplace dedupe (register_mask stack_map) index
      in if \<not> index < length masks then Inl OutOfBounds
         else and_then
                (register_masks_loop rest dedupe' (masks[index := register_mask stack_map]))
                (\<lambda>(entries, d, m).
                   Inr (stack_map \<lparr> register_mask_index := found \<rparr> # entries, d, m)))"

definition PrepareRegisterMasks :: "StackMapStream \<Rightarrow> error + (nat \<times> StackMapStream)" where
  "PrepareRegisterMasks s =
     and_then
       (register_masks_loop (stack_maps s) []
          (resize (register_masks s) (length (stack_maps s)) 0))
       (\<lambda>(entries, dedupe, masks).
          Inr (length dedupe, s \<lparr> stack_maps := entries, register_masks := masks \<rparr>))"

text \<open>
  Modelled from the spec: \<^verbatim>\<open>MemoryRegion\<close> (memory_region.h) is not among the sources. A
  region is a start offset and a size in bytes inside a byte buffer; \<^verbatim>\<open>StoreBit\<close> sets or
  clears bit \<open>bit_offset mod 8\<close> of byte \<open>bit_offset div 8\<close> of the region, and checks that
  the byte is inside the region. \<^verbatim>\<open>RoundUp\<close> and \<^verbatim>\<open>kBitsPerByte\<close> are from base/bit_utils.h
  and globals.h.
\<close>

definition kBitsPerByte :: nat where
  "kBitsPerByte = 8"

definition RoundUp :: "nat \<Rightarrow> nat \<Rightarrow> nat" where
  "RoundUp x n = (x + n - 1) div n * n"

definition StoreBit :: "8 word list \<Rightarrow> nat \<Rightarrow> nat \<Rightarrow> nat \<Rightarrow> bool \<Rightarrow> error + 8 word list" where
  "StoreBit buf start size_in_bytes bit_offset v =
     (let byte = bit_offset div 8;
          bit_mask = push_bit (bit_offset mod 8) (1 :: 8 word)
      in if \<not> byte < size_in_bytes then Inl PreconditionViolation
         else if \<not> start + byte < length buf then Inl OutOfBounds
         else Inr (buf[start + byte :=
                 (if v then buf ! (start + byte) OR bit_mask
                  else buf ! (start + byte) AND NOT bit_mask)]))"

text \<open>A counted \<^verbatim>\<open>for\<close> loop whose body can fail: the body runs over the index list in order.\<close>

fun fold_r :: "('a \<Rightarrow> 'b \<Rightarrow> error + 'b) \<Rightarrow> 'a list \<Rightarrow> 'b \<Rightarrow> error + 'b" where
  "fold_r f [] b = Inr b"
| "fold_r f (x # xs) b = and_then (f x b) (fold_r f xs)"

text \<open>\<^verbatim>\<open>sp_mask != nullptr && sp_mask->IsBitSet(i)\<close>.\<close>

definition mask_bit :: "BitVector option \<Rightarrow> nat \<Rightarrow> bool" where
  "mask_bit m i = (case m of None \<Rightarrow> False | Some v \<Rightarrow> IsBitSet v i)"

text \<open>
  \<^verbatim>\<open>PrepareStackMasks\<close>. The dedup table is keyed by memory regions inside
  \<open>stack_masks\<close> and compares them by content (\<^verbatim>\<open>MemoryRegion::ContentEquals\<close>): a key is
  the start offset of its slot, and a lookup compares the bytes the buffer holds now.
\<close>

definition emplace_region ::
  "8 word list \<Rightarrow> nat \<Rightarrow> (nat \<times> nat) list \<Rightarrow> nat \<Rightarrow> nat \<Rightarrow> (nat \<times> nat) list \<times> nat" where
  "emplace_region buf size_in_bytes dedup key v =
     (case find (\<lambda>(k, v'). slice buf k size_in_bytes = slice buf key size_in_bytes) dedup of
        Some (k, v') \<Rightarrow> (dedup, v')
      | None \<Rightarrow> (dedup @ [(key, v)], v))"

fun stack_masks_loop ::
  "nat \<Rightarrow> nat \<Rightarrow> StackMapEntry list \<Rightarrow> (nat \<times> nat) list \<Rightarrow> 8 word list
     \<Rightarrow> error + (StackMapEntry list \<times> (nat \<times> nat) list \<times> 8 word list)" where
  "stack_masks_loop entry_size_in_bits byte_entry_size [] dedup buf = Inr ([], dedup, buf)"
| "stack_masks_loop entry_size_in_bits byte_entry_size (stack_map # rest) dedup buf =
     (let index = length dedup;
          start = index * byte_entry_size
      in and_then
           (fold_r (\<lambda>i b. StoreBit b start byte_entry_size i (mask_bit (sp_mask stack_map) i))
              [0..<entry_size_in_bits] buf)
           (\<lambda>buf'.
              let (dedup', found) = emplace_region buf' byte_entry_size dedup start index
              in and_then (stack_masks_loop entry_size_in_bits byte_entry_size rest dedup' buf')
                   (\<lambda>(entries, d, b).
                      Inr (stack_map \<lparr> stack_mask_index := found \<rparr> # entries, d, b))))"

definition PrepareStackMasks :: "nat \<Rightarrow> StackMapStream \<Rightarrow> error + (nat \<times> StackMapStream)" where
  "PrepareStackMasks entry_size_in_bits s =
     (let byte_entry_size = RoundUp entry_size_in_bits kBitsPerByte div kBitsPerByte
      in and_then
           (stack_masks_loop entry_size_in_bits byte_entry_size (stack_maps s) []
              (resize (stack_masks s) (byte_entry_size * length (stack_maps s)) 0))
           (\<lambda>(entries, dedup, buf).
              Inr (length dedup, s \<lparr> stack_maps := entries, stack_masks := buf \<rparr>)))"

text \<open>
  \<^verbatim>\<open>MinimumBitsToStore\<close> (base/bit_utils.h): the number of bits of a value, 0 for 0.
\<close>

fun MinimumBitsToStore :: "nat \<Rightarrow> nat" where
  "MinimumBitsToStore n = (if n = 0 then 0 else Suc (MinimumBitsToStore (n div 2)))"

declare MinimumBitsToStore.simps [simp del]

text \<open>
  Modelled from the spec: \<^verbatim>\<open>DexRegisterMap\<close> and \<^verbatim>\<open>DexRegisterLocationCatalog\<close>
  (stack_map.h) are not among the sources. The spec gives the size of a map as
  \<open>FixedHeader + LiveBitMaskBytes(N) + ceil(popcount \<times> SingleEntryBits(|catalog|) / 8)\<close> with
  \<open>LiveBitMaskBytes(N) = ceil(N/8)\<close> and \<open>SingleEntryBits(k) = ceil(log2(k+1))\<close>, and the size of
  the catalog as \<open>FixedHeader + \<Sum> EntrySize(loc)\<close>, where \<open>EntrySize\<close> depends on the kind
  and the magnitude of the value (one byte for a short location, five for a long one).
  Both fixed headers are empty. No property below depends on these values.
\<close>

definition DexRegisterMap_kFixedSize :: nat where
  "DexRegisterMap_kFixedSize = 0"

definition GetLiveBitMaskSize :: "32 word \<Rightarrow> nat" where
  "GetLiveBitMaskSize number_of_dex_registers =
     RoundUp (unat number_of_dex_registers) kBitsPerByte div kBitsPerByte"

definition SingleEntrySizeInBits :: "nat \<Rightarrow> nat" where
  "SingleEntrySizeInBits number_of_location_catalog_entries =
     MinimumBitsToStore number_of_location_catalog_entries"

definition DexRegisterLocationCatalog_kFixedSize :: nat where
  "DexRegisterLocationCatalog_kFixedSize = 0"

definition IsShortConstantValue :: "32 word \<Rightarrow> bool" where
  "IsShortConstantValue v = (0 \<le> sint v \<and> sint v < 32)"

definition IsShortStackOffsetValue :: "32 word \<Rightarrow> bool" where
  "IsShortStackOffsetValue v = (0 \<le> sint v \<and> sint v < 128)"

definition EntrySize :: "DexRegisterLocation \<Rightarrow> nat" where
  "EntrySize location =
     (case GetKind location of
        kInStack \<Rightarrow> if IsShortStackOffsetValue (GetValue location) then 1 else 5
      | kConstant \<Rightarrow> if IsShortConstantValue (GetValue location) then 1 else 5
      | kInStackLargeOffset \<Rightarrow> 5
      | kConstantLargeValue \<Rightarrow> 5
      | _ \<Rightarrow> 1)"

text \<open>The sizing functions of stack_map_stream.cc.\<close>

definition ComputeDexRegisterLocationCatalogSize :: "StackMapStream \<Rightarrow> nat" where
  "ComputeDexRegisterLocationCatalogSize s =
     fold (\<lambda>dex_register_location sz. sz + EntrySize dex_register_location)
       (location_catalog_entries s) DexRegisterLocationCatalog_kFixedSize"

definition ComputeDexRegisterMapSize ::
  "StackMapStream \<Rightarrow> 32 word \<Rightarrow> BitVector option \<Rightarrow> error + nat" where
  "ComputeDexRegisterMapSize s n live_mask =
     (if n = 0 then Inr 0
      else case live_mask of
             None \<Rightarrow> Inl PreconditionViolation
           | Some m \<Rightarrow>
               Inr (DexRegisterMap_kFixedSize + GetLiveBitMaskSize n
                    + RoundUp (SingleEntrySizeInBits (length (location_catalog_entries s))
                                 * NumSetBits m) kBitsPerByte div kBitsPerByte))"

text \<open>
  \<^verbatim>\<open>ComputeDexRegisterMapsSize\<close>: \<open>maps_size_frames\<close> is the inner loop over the inline
  frames of one entry with the running \<open>inline_info_index\<close>, \<open>maps_size_entries\<close> the loop
  over the stack maps. An entry with a back-reference contributes nothing for its own
  map.
\<close>

fun maps_size_frames ::
  "StackMapStream \<Rightarrow> nat \<Rightarrow> nat \<Rightarrow> nat \<Rightarrow> error + (nat \<times> nat)" where
  "maps_size_frames s 0 inline_info_index sz = Inr (inline_info_index, sz)"
| "maps_size_frames s (Suc j) inline_info_index sz =
     and_then (at_index (inline_infos s) inline_info_index) (\<lambda>inline_entry.
       and_then (ComputeDexRegisterMapSize s (ii_num_dex_registers inline_entry)
                   (ii_live_dex_registers_mask inline_entry)) (\<lambda>n.
         maps_size_frames s j (Suc inline_info_index) (sz + n)))"

fun maps_size_entries ::
  "StackMapStream \<Rightarrow> StackMapEntry list \<Rightarrow> nat \<Rightarrow> nat \<Rightarrow> error + (nat \<times> nat)" where
  "maps_size_entries s [] inline_info_index sz = Inr (inline_info_index, sz)"
| "maps_size_entries s (entry # rest) inline_info_index sz =
     and_then
       (if same_dex_register_map_as entry = kNoSameDexMapFound
        then and_then (ComputeDexRegisterMapSize s (num_dex_registers entry)
                         (live_dex_registers_mask entry)) (\<lambda>n. Inr (sz + n))
        else Inr sz) (\<lambda>sz'.
       and_then (maps_size_frames s (unat (inlining_depth entry)) inline_info_index sz')
         (\<lambda>(i, sz''). maps_size_entries s rest i sz''))"

definition ComputeDexRegisterMapsSize :: "StackMapStream \<Rightarrow> error + nat" where
  "ComputeDexRegisterMapsSize s =
     and_then (maps_size_entries s (stack_maps s) 0 0) (\<lambda>(i, sz). Inr sz)"

definition ComputeMaxNativePcCodeOffset :: "StackMapStream \<Rightarrow> 32 word" where
  "ComputeMaxNativePcCodeOffset s =
     fold (\<lambda>entry max_native_pc_offset. max max_native_pc_offset (native_pc_code_offset entry))
       (stack_maps s) 0"

text \<open>
  Modelled from the spec: \<^verbatim>\<open>StackMapEncoding\<close>, \<^verbatim>\<open>InlineInfoEncoding\<close> and
  \<^verbatim>\<open>CodeInfoEncoding\<close> (stack_map.h) are not among the sources. \<^verbatim>\<open>SetFromSizes\<close> gives each
  field the minimum number of bits for its observed maximum; the dex PC fields make
  room for the "no dex PC" value, and an inline dex PC takes no bits when no frame has
  one. \<open>CodeInfoEncoding\<close> holds what \<^verbatim>\<open>PrepareForFillIn\<close> assigns. The header is the
  sequence of these numbers, each as a variable-length integer of seven bits per byte;
  the tables follow it in the spec's order, the two byte-sized tables first.
\<close>

record StackMapEncoding =
  native_pc_bits :: nat
  dex_pc_bits :: nat
  dex_register_map_bits :: nat
  inline_info_bits :: nat
  register_mask_index_bits :: nat
  stack_mask_index_bits :: nat

definition StackMapEncoding_SetFromSizes ::
  "nat \<Rightarrow> nat \<Rightarrow> nat \<Rightarrow> nat \<Rightarrow> nat \<Rightarrow> nat \<Rightarrow> StackMapEncoding" where
  "StackMapEncoding_SetFromSizes native_pc_max dex_pc_max' dex_register_map_size
       number_of_inline_info number_of_register_masks number_of_stack_masks =
     \<lparr> native_pc_bits = MinimumBitsToStore native_pc_max,
       dex_pc_bits = MinimumBitsToStore (1 + dex_pc_max'),
       dex_register_map_bits = MinimumBitsToStore dex_register_map_size,
       inline_info_bits = MinimumBitsToStore number_of_inline_info,
       register_mask_index_bits = MinimumBitsToStore number_of_register_masks,
       stack_mask_index_bits = MinimumBitsToStore number_of_stack_masks \<rparr>"

definition StackMapEncoding_BitSize :: "StackMapEncoding \<Rightarrow> nat" where
  "StackMapEncoding_BitSize e =
     native_pc_bits e + dex_pc_bits e + dex_register_map_bits e + inline_info_bits e
       + register_mask_index_bits e + stack_mask_index_bits e"

record InlineInfoEncoding =
  method_index_bits :: nat
  inline_dex_pc_bits :: nat
  extra_data_bits :: nat
  inline_dex_register_map_bits :: nat

definition InlineInfoEncoding_SetFromSizes ::
  "32 word \<Rightarrow> 32 word \<Rightarrow> 32 word \<Rightarrow> nat \<Rightarrow> InlineInfoEncoding" where
  "InlineInfoEncoding_SetFromSizes method_index_max dex_pc_max' extra_data_max
       dex_register_map_size =
     \<lparr> method_index_bits = MinimumBitsToStore (unat method_index_max),
       inline_dex_pc_bits =
         (if dex_pc_max' \<noteq> kDexNoIndex then MinimumBitsToStore (1 + unat dex_pc_max') else 0),
       extra_data_bits = MinimumBitsToStore (unat extra_data_max),
       inline_dex_register_map_bits = MinimumBitsToStore dex_register_map_size \<rparr>"

definition InlineInfoEncoding_BitSize :: "InlineInfoEncoding \<Rightarrow> nat" where
  "InlineInfoEncoding_BitSize e =
     method_index_bits e + extra_data_bits e + inline_dex_pc_bits e
       + inline_dex_register_map_bits e"

definition ComputeInlineInfoEncoding :: "StackMapStream \<Rightarrow> nat \<Rightarrow> error + InlineInfoEncoding" where
  "ComputeInlineInfoEncoding s dex_register_maps_bytes =
     and_then (ComputeInlineInfoMaxima s) (\<lambda>(mi_max, pc_max, ed_max).
       Inr (InlineInfoEncoding_SetFromSizes mi_max pc_max ed_max dex_register_maps_bytes))"

record CodeInfoEncoding =
  dex_register_map_num_entries :: nat
  dex_register_map_num_bytes :: nat
  location_catalog_num_entries :: nat
  location_catalog_num_bytes :: nat
  inline_info_num_entries :: nat
  inline_info_encoding :: InlineInfoEncoding
  stack_mask_num_bits :: nat
  stack_mask_num_entries :: nat
  register_mask_num_bits :: nat
  register_mask_num_entries :: nat
  stack_map_num_entries :: nat
  stack_map_encoding :: StackMapEncoding

fun EncodeUnsignedLeb128 :: "nat \<Rightarrow> 8 word list" where
  "EncodeUnsignedLeb128 n =
     (if n < 128 then [of_nat n]
      else of_nat (n mod 128 + 128) # EncodeUnsignedLeb128 (n div 128))"

declare EncodeUnsignedLeb128.simps [simp del]

definition header_fields :: "CodeInfoEncoding \<Rightarrow> nat list" where
  "header_fields e =
     [dex_register_map_num_entries e, dex_register_map_num_bytes e,
      location_catalog_num_entries e, location_catalog_num_bytes e,
      stack_map_num_entries e,
      native_pc_bits (stack_map_encoding e), dex_pc_bits (stack_map_encoding e),
      dex_register_map_bits (stack_map_encoding e), inline_info_bits (stack_map_encoding e),
      register_mask_index_bits (stack_map_encoding e),
      stack_mask_index_bits (stack_map_encoding e),
      register_mask_num_entries e, register_mask_num_bits e,
      stack_mask_num_entries e, stack_mask_num_bits e,
      inline_info_num_entries e,
      method_index_bits (inline_info_encoding e), inline_dex_pc_bits (inline_info_encoding e),
      extra_data_bits (inline_info_encoding e),
      inline_dex_register_map_bits (inline_info_encoding e)]"

definition Compress :: "CodeInfoEncoding \<Rightarrow> 8 word list" where
  "Compress e = concat (map EncodeUnsignedLeb128 (header_fields e))"

definition NonHeaderSize :: "CodeInfoEncoding \<Rightarrow> nat" where
  "NonHeaderSize e =
     location_catalog_num_bytes e + dex_register_map_num_bytes e
     + RoundUp (inline_info_num_entries e * InlineInfoEncoding_BitSize (inline_info_encoding e)
                + register_mask_num_entries e * register_mask_num_bits e
                + stack_mask_num_entries e * stack_mask_num_bits e
                + stack_map_num_entries e * StackMapEncoding_BitSize (stack_map_encoding e))
         kBitsPerByte div kBitsPerByte"

text \<open>
  \<^verbatim>\<open>PrepareForFillIn\<close>. \<^verbatim>\<open>Compress\<close> appends the header to \<open>code_info_encoding\<close>, which the
  assertion before it requires to be empty; \<^verbatim>\<open>HeaderSize()\<close> is the buffer's size after
  that, so the second \<^verbatim>\<open>DCHECK_EQ\<close> always holds.
\<close>

definition PrepareForFillIn :: "StackMapStream \<Rightarrow> error + (nat \<times> StackMapStream)" where
  "PrepareForFillIn s =
     and_then (ComputeDexRegisterMapsSize s) (\<lambda>dex_register_map_bytes.
     and_then (ComputeInlineInfoEncoding s dex_register_map_bytes) (\<lambda>inline_encoding.
     let max_native_pc_offset = ComputeMaxNativePcCodeOffset s;
         stack_mask_bits = nat (stack_mask_max s + 1)
     in and_then (PrepareStackMasks stack_mask_bits s) (\<lambda>(number_of_stack_masks, s1).
        and_then (PrepareRegisterMasks s1) (\<lambda>(number_of_register_masks, s2).
        let encoding =
              \<lparr> dex_register_map_num_entries = 0,
                dex_register_map_num_bytes = dex_register_map_bytes,
                location_catalog_num_entries = length (location_catalog_entries s2),
                location_catalog_num_bytes = ComputeDexRegisterLocationCatalogSize s2,
                inline_info_num_entries = length (inline_infos s2),
                inline_info_encoding = inline_encoding,
                stack_mask_num_bits = stack_mask_bits,
                stack_mask_num_entries = number_of_stack_masks,
                register_mask_num_bits = MinimumBitsToStore (unat (register_mask_max s2)),
                register_mask_num_entries = number_of_register_masks,
                stack_map_num_entries = length (stack_maps s2),
                stack_map_encoding =
                  StackMapEncoding_SetFromSizes (unat max_native_pc_offset)
                    (unat (dex_pc_max s2)) dex_register_map_bytes (length (inline_infos s2))
                    number_of_register_masks number_of_stack_masks \<rparr>
        in if length (code_info_encoding s2) \<noteq> 0 then Inl PreconditionViolation
           else
             (let s3 = s2 \<lparr> code_info_encoding := code_info_encoding s2 @ Compress encoding \<rparr>;
                  sz = length (code_info_encoding s3) + NonHeaderSize encoding
              in Inr (sz, s3 \<lparr> needed_size := sz \<rparr>))))))"

section \<open>Layout and the FillIn writer\<close>

text \<open>
  Modelled from the spec: \<^verbatim>\<open>CodeInfo::ExtractEncoding\<close> (stack_map.h) is not among the
  sources. It reads back the header that \<^verbatim>\<open>Compress\<close> wrote.
\<close>

fun DecodeUnsignedLeb128 :: "8 word list \<Rightarrow> (nat \<times> 8 word list) option" where
  "DecodeUnsignedLeb128 [] = None"
| "DecodeUnsignedLeb128 (b # bs) =
     (if b < 128 then Some (unat b, bs)
      else case DecodeUnsignedLeb128 bs of
             None \<Rightarrow> None
           | Some (v, rest) \<Rightarrow> Some (unat b - 128 + 128 * v, rest))"

fun decode_fields :: "nat \<Rightarrow> 8 word list \<Rightarrow> (nat list \<times> 8 word list) option" where
  "decode_fields 0 bytes = Some ([], bytes)"
| "decode_fields (Suc k) bytes =
     (case DecodeUnsignedLeb128 bytes of
        None \<Rightarrow> None
      | Some (v, rest) \<Rightarrow>
          (case decode_fields k rest of
             None \<Rightarrow> None
           | Some (vs, rest') \<Rightarrow> Some (v # vs, rest')))"

definition ExtractEncoding :: "8 word list \<Rightarrow> error + CodeInfoEncoding" where
  "ExtractEncoding bytes =
     (case decode_fields 20 bytes of
        Some ([v_dm_entries, v_dm_bytes, v_lc_entries, v_lc_bytes, v_sm_entries,
               v_sm_native, v_sm_dex, v_sm_map, v_sm_inline, v_sm_rm, v_sm_st,
               v_rm_entries, v_rm_bits, v_st_entries, v_st_bits,
               v_ii_entries, v_ii_method, v_ii_dex, v_ii_extra, v_ii_map], rest) \<Rightarrow>
          Inr \<lparr> dex_register_map_num_entries = v_dm_entries,
                dex_register_map_num_bytes = v_dm_bytes,
                location_catalog_num_entries = v_lc_entries,
                location_catalog_num_bytes = v_lc_bytes,
                inline_info_num_entries = v_ii_entries,
                inline_info_encoding =
                  \<lparr> method_index_bits = v_ii_method, inline_dex_pc_bits = v_ii_dex,
                    extra_data_bits = v_ii_extra, inline_dex_register_map_bits = v_ii_map \<rparr>,
                stack_mask_num_bits = v_st_bits,
                stack_mask_num_entries = v_st_entries,
                register_mask_num_bits = v_rm_bits,
                register_mask_num_entries = v_rm_entries,
                stack_map_num_entries = v_sm_entries,
                stack_map_encoding =
                  \<lparr> native_pc_bits = v_sm_native, dex_pc_bits = v_sm_dex,
                    dex_register_map_bits = v_sm_map, inline_info_bits = v_sm_inline,
                    register_mask_index_bits = v_sm_rm, stack_mask_index_bits = v_sm_st \<rparr> \<rparr>
      | _ \<Rightarrow> Inl PreconditionViolation)"

text \<open>
  Modelled from the spec: the writer side of \<^verbatim>\<open>StackMap\<close>, \<^verbatim>\<open>InlineInfo\<close>,
  \<^verbatim>\<open>DexRegisterMap\<close> and \<^verbatim>\<open>CodeInfo\<close> (stack_map.h) is not among the sources, so the bit
  layout of the blob is not modelled. What \<^verbatim>\<open>FillIn\<close> writes is recorded as the values it
  hands to the setters: one \<open>StackMapOut\<close> per stack map, one \<open>DexRegisterMapOut\<close> per
  materialised dex-register map (its offset and size in the dex-register-map region,
  and the live mask and catalog indices it stores), one \<open>InlineInfoOut\<close> per inline
  frame. Reading a field of an earlier stack map back
  (\<^verbatim>\<open>GetStackMapAt(i).GetDexRegisterMapOffset\<close>) returns the value written for it; reading a
  stack map that has not been written yet is \<open>OutOfBounds\<close>. \<^verbatim>\<open>kNoDexRegisterMap\<close> and
  \<^verbatim>\<open>kNoInlineInfo\<close> are \<^verbatim>\<open>uint32_t\<close> -1.
\<close>

definition kNoDexRegisterMap :: nat where
  "kNoDexRegisterMap = 4294967295"

definition kNoInlineInfo :: nat where
  "kNoInlineInfo = 4294967295"

record StackMapOut =
  out_dex_pc :: "32 word"
  out_native_pc_code_offset :: "32 word"
  out_register_mask_index :: nat
  out_stack_mask_index :: nat
  out_dex_register_map_offset :: nat
  out_inline_info_index :: "nat option"

record DexRegisterMapOut =
  map_offset :: nat
  map_size :: nat
  map_num_dex_registers :: "32 word"
  map_live_bit_mask :: BitVector
  map_catalog_indices :: "nat list"
  map_catalog_size :: nat

record InlineInfoOut =
  io_index :: nat
  io_method_index :: "32 word"
  io_extra_data :: "32 word"
  io_dex_pc :: "32 word"
  io_dex_register_map_offset :: nat

record fill_state =
  next_dex_register_map_offset :: nat
  next_inline_info_index :: nat
  w_stack_maps :: "StackMapOut list"
  w_dex_register_maps :: "DexRegisterMapOut list"
  w_inline_infos :: "InlineInfoOut list"
  w_depths :: "(nat \<times> nat) list"

text \<open>
  \<^verbatim>\<open>FillInDexRegisterMap\<close>: the live bit mask and, for each live register in order, the
  catalog index at \<open>start_index + k\<close> of the shared index array.
\<close>

definition FillInDexRegisterMap ::
  "StackMapStream \<Rightarrow> nat \<Rightarrow> nat \<Rightarrow> 32 word \<Rightarrow> BitVector \<Rightarrow> nat \<Rightarrow> error + DexRegisterMapOut" where
  "FillInDexRegisterMap s region_offset region_size n live_mask start_index =
     (let number_of_live_dex_registers = NumSetBits live_mask;
          locs = dex_register_locations s
      in if \<not> number_of_live_dex_registers \<le> length locs then Inl PreconditionViolation
         else if \<not> start_index \<le> length locs - number_of_live_dex_registers
           then Inl PreconditionViolation
         else Inr \<lparr> map_offset = region_offset, map_size = region_size,
                    map_num_dex_registers = n, map_live_bit_mask = live_mask,
                    map_catalog_indices = slice locs start_index number_of_live_dex_registers,
                    map_catalog_size = length (location_catalog_entries s) \<rparr>)"

text \<open>
  Lines 327-340 and 381-395: a new map takes the sub-region of the computed size at
  \<open>next_dex_register_map_offset\<close> (\<^verbatim>\<open>Subregion\<close> checks that it lies inside the
  dex-register-map region), the cursor advances by that size, and the map is filled in.
  The result is the offset relative to the region.
\<close>

definition new_dex_register_map ::
  "StackMapStream \<Rightarrow> CodeInfoEncoding \<Rightarrow> fill_state \<Rightarrow> 32 word \<Rightarrow> BitVector option \<Rightarrow> nat
     \<Rightarrow> error + (nat \<times> fill_state)" where
  "new_dex_register_map s encoding st n live_mask start_index =
     and_then (ComputeDexRegisterMapSize s n live_mask) (\<lambda>sz.
       if \<not> next_dex_register_map_offset st + sz \<le> dex_register_map_num_bytes encoding
       then Inl PreconditionViolation
       else case live_mask of
              None \<Rightarrow> Inl NullDereference
            | Some m \<Rightarrow>
                and_then (FillInDexRegisterMap s (next_dex_register_map_offset st) sz n m
                            start_index) (\<lambda>written.
                  Inr (next_dex_register_map_offset st,
                       st \<lparr> next_dex_register_map_offset := next_dex_register_map_offset st + sz,
                            w_dex_register_maps := w_dex_register_maps st @ [written] \<rparr>)))"

text \<open>Lines 314-342: the dex-register-map offset of one stack map.\<close>

definition fill_dex_register_map_offset ::
  "StackMapStream \<Rightarrow> CodeInfoEncoding \<Rightarrow> fill_state \<Rightarrow> StackMapEntry
     \<Rightarrow> error + (nat \<times> fill_state)" where
  "fill_dex_register_map_offset s encoding st entry =
     (if num_dex_registers entry = 0 then Inr (kNoDexRegisterMap, st)
      else case live_dex_registers_mask entry of
             None \<Rightarrow> Inl NullDereference
           | Some m \<Rightarrow>
               if NumSetBits m = 0 then Inr (kNoDexRegisterMap, st)
               else if same_dex_register_map_as entry \<noteq> kNoSameDexMapFound then
                 and_then (at_index (w_stack_maps st) (same_dex_register_map_as entry))
                   (\<lambda>earlier. Inr (out_dex_register_map_offset earlier, st))
               else new_dex_register_map s encoding st (num_dex_registers entry)
                      (live_dex_registers_mask entry)
                      (dex_register_locations_start_index entry))"

text \<open>Lines 345-400: the inline frames of one stack map, and its inline-info index.\<close>

definition fill_inline_frame ::
  "StackMapStream \<Rightarrow> CodeInfoEncoding \<Rightarrow> nat \<Rightarrow> StackMapEntry \<Rightarrow> nat \<Rightarrow> fill_state
     \<Rightarrow> error + fill_state" where
  "fill_inline_frame s encoding group_index entry depth st =
     and_then (at_index (inline_infos s) (depth + inline_infos_start_index entry))
       (\<lambda>inline_entry.
          and_then
            (if ii_num_dex_registers inline_entry = 0 then
               (if ii_live_dex_registers_mask inline_entry \<noteq> None then Inl PreconditionViolation
                else Inr (kNoDexRegisterMap, st))
             else new_dex_register_map s encoding st (ii_num_dex_registers inline_entry)
                    (ii_live_dex_registers_mask inline_entry)
                    (ii_dex_register_locations_start_index inline_entry))
            (\<lambda>(offset, st').
               Inr (st' \<lparr> w_inline_infos := w_inline_infos st' @
                     [\<lparr> io_index = group_index + depth,
                        io_method_index =
                          (if ii_method inline_entry \<noteq> 0 then High32Bits (ii_method inline_entry)
                           else ii_method_index inline_entry),
                        io_extra_data =
                          (if ii_method inline_entry \<noteq> 0 then Low32Bits (ii_method inline_entry)
                           else 1),
                        io_dex_pc = ii_dex_pc inline_entry,
                        io_dex_register_map_offset = offset \<rparr>] \<rparr>)))"

definition fill_inline_info ::
  "StackMapStream \<Rightarrow> CodeInfoEncoding \<Rightarrow> fill_state \<Rightarrow> StackMapEntry
     \<Rightarrow> error + (nat option \<times> fill_state)" where
  "fill_inline_info s encoding st entry =
     (if inlining_depth entry \<noteq> 0 then
        (let group_index = next_inline_info_index st
         in if group_index \<noteq> inline_infos_start_index entry then Inl PreconditionViolation
            else if \<not> inline_infos_start_index entry + unat (inlining_depth entry)
                       \<le> length (inline_infos s)
              then Inl PreconditionViolation
            else and_then
                   (fold_r (fill_inline_frame s encoding group_index entry)
                      [0..<unat (inlining_depth entry)]
                      (st \<lparr> next_inline_info_index := group_index + unat (inlining_depth entry),
                            w_depths := w_depths st
                                          @ [(group_index, unat (inlining_depth entry))] \<rparr>))
                   (\<lambda>st'. Inr (Some group_index, st')))
      else if inline_info_bits (stack_map_encoding encoding) > 0
        then Inr (Some kNoInlineInfo, st)
      else Inr (None, st))"

text \<open>The body of the loop over the stack maps, lines 305-401.\<close>

definition fill_stack_map ::
  "StackMapStream \<Rightarrow> CodeInfoEncoding \<Rightarrow> StackMapEntry \<Rightarrow> fill_state \<Rightarrow> error + fill_state" where
  "fill_stack_map s encoding entry st =
     and_then (fill_dex_register_map_offset s encoding st entry) (\<lambda>(offset, st1).
       and_then (fill_inline_info s encoding st1 entry) (\<lambda>(inline_index, st2).
         Inr (st2 \<lparr> w_stack_maps := w_stack_maps st2 @
               [\<lparr> out_dex_pc = dex_pc entry,
                  out_native_pc_code_offset = native_pc_code_offset entry,
                  out_register_mask_index = register_mask_index entry,
                  out_stack_mask_index = stack_mask_index entry,
                  out_dex_register_map_offset = offset,
                  out_inline_info_index = inline_index \<rparr>] \<rparr>)))"

text \<open>\<^verbatim>\<open>MemoryRegion::LoadBit\<close>, and a loop that collects one result per index.\<close>

definition LoadBit :: "8 word list \<Rightarrow> nat \<Rightarrow> nat \<Rightarrow> nat \<Rightarrow> error + bool" where
  "LoadBit buf start size_in_bytes bit_offset =
     (let byte = bit_offset div 8
      in if \<not> byte < size_in_bytes then Inl PreconditionViolation
         else if \<not> start + byte < length buf then Inl OutOfBounds
         else Inr (bit (buf ! (start + byte)) (bit_offset mod 8)))"

fun collect :: "('a \<Rightarrow> error + 'b) \<Rightarrow> 'a list \<Rightarrow> error + 'b list" where
  "collect f [] = Inr []"
| "collect f (x # xs) = and_then (f x) (\<lambda>y. and_then (collect f xs) (\<lambda>ys. Inr (y # ys)))"

record CodeInfoOut =
  out_header :: "8 word list"
  out_encoding :: CodeInfoEncoding
  out_catalog :: "(nat \<times> DexRegisterLocation) list"
  out_stack_maps :: "StackMapOut list"
  out_dex_register_maps :: "DexRegisterMapOut list"
  out_dex_register_maps_bytes :: nat
  out_inline_infos :: "InlineInfoOut list"
  out_depths :: "(nat \<times> nat) list"
  out_stack_masks :: "bool list list"
  out_register_masks :: "32 word list"

fun fill_catalog ::
  "DexRegisterLocation list \<Rightarrow> nat \<Rightarrow> (nat \<times> DexRegisterLocation) list \<times> nat" where
  "fill_catalog [] location_catalog_offset = ([], location_catalog_offset)"
| "fill_catalog (dex_register_location # rest) location_catalog_offset =
     (let (written, end_offset) =
            fill_catalog rest (location_catalog_offset + EntrySize dex_register_location)
      in ((location_catalog_offset, dex_register_location) # written, end_offset))"

text \<open>
  \<^verbatim>\<open>FillIn\<close>, lines 267-420. The readback verification that a debug build runs at the end
  (\<^verbatim>\<open>CheckCodeInfo\<close>) reads through the decoder, which is not among the sources, and
  writes nothing; it is not part of this function's model.
\<close>

definition FillIn :: "StackMapStream \<Rightarrow> nat \<Rightarrow> error + CodeInfoOut" where
  "FillIn s region_size =
     (if dex_pc (current_entry s) \<noteq> 0 then Inl PreconditionViolation
      else if needed_size s = 0 then Inl PreconditionViolation
      else if region_size \<noteq> needed_size s then Inl PreconditionViolation
      else if \<not> length (code_info_encoding s) \<le> region_size then Inl PreconditionViolation
      else
        and_then (ExtractEncoding (code_info_encoding s)) (\<lambda>encoding.
          if stack_map_num_entries encoding \<noteq> length (stack_maps s)
          then Inl PreconditionViolation
          else if \<not> length (code_info_encoding s) + location_catalog_num_bytes encoding
                     + dex_register_map_num_bytes encoding \<le> region_size
            then Inl PreconditionViolation
          else
            (let (catalog, location_catalog_offset) =
                   fill_catalog (location_catalog_entries s) DexRegisterLocationCatalog_kFixedSize
             in if location_catalog_offset \<noteq> location_catalog_num_bytes encoding
                then Inl PreconditionViolation
                else
                  and_then
                    (fold_r (fill_stack_map s encoding) (stack_maps s)
                       \<lparr> next_dex_register_map_offset = 0, next_inline_info_index = 0,
                         w_stack_maps = [], w_dex_register_maps = [], w_inline_infos = [],
                         w_depths = [] \<rparr>) (\<lambda>st.
                  let stack_mask_bits = stack_mask_num_bits encoding;
                      stack_mask_bytes = RoundUp stack_mask_bits kBitsPerByte div kBitsPerByte
                  in and_then
                       (if stack_mask_bits > 0 then
                          collect (\<lambda>i. collect (LoadBit (stack_masks s) (i * stack_mask_bytes)
                                                   stack_mask_bytes) [0..<stack_mask_bits])
                            [0..<stack_mask_num_entries encoding]
                        else Inr []) (\<lambda>stack_masks_out.
                     and_then
                       (collect (at_index (register_masks s))
                          [0..<register_mask_num_entries encoding]) (\<lambda>register_masks_out.
                       Inr \<lparr> out_header = code_info_encoding s,
                             out_encoding = encoding,
                             out_catalog = catalog,
                             out_stack_maps = w_stack_maps st,
                             out_dex_register_maps = w_dex_register_maps st,
                             out_dex_register_maps_bytes = next_dex_register_map_offset st,
                             out_inline_infos = w_inline_infos st,
                             out_depths = w_depths st,
                             out_stack_masks = stack_masks_out,
                             out_register_masks = register_masks_out \<rparr>))))))"

section \<open>Specification-side notions\<close>

text \<open>
  What the specification says the inline-info \<open>max_dex_pc\<close> is: the largest dex PC among
  the frames whose dex PC is not the sentinel, and the sentinel when there is none.
\<close>

definition max_dex_pc_of :: "32 word list \<Rightarrow> 32 word" where
  "max_dex_pc_of pcs =
     (let real = filter (\<lambda>pc. pc \<noteq> kDexNoIndex) pcs
      in if real = [] then kDexNoIndex else Max (set real))"

definition total_inlining_depth :: "StackMapEntry list \<Rightarrow> nat" where
  "total_inlining_depth entries = sum_list (map (\<lambda>e. unat (inlining_depth e)) entries)"

text \<open>
  What the specification says an interner does: the distinct keys are numbered densely
  in the order of their first occurrence. \<open>first_occurrences\<close> is the list of the
  distinct keys in that order and \<open>index_of\<close> a key's position in it.
\<close>

definition add_key :: "'a \<Rightarrow> 'a list \<Rightarrow> 'a list" where
  "add_key x acc = (if x \<in> set acc then acc else acc @ [x])"

definition first_occurrences :: "'a list \<Rightarrow> 'a list" where
  "first_occurrences xs = fold add_key xs []"

definition index_of :: "'a list \<Rightarrow> 'a \<Rightarrow> nat" where
  "index_of xs x = length (takeWhile (\<lambda>y. y \<noteq> x) xs)"

text \<open>
  The byte-packed stack mask the specification keys the stack-mask interner by: byte
  \<open>k\<close> holds the bits \<open>8k .. 8k+7\<close> of the mask, those below the bit width; an absent
  mask is all zeros.
\<close>

definition packed_stack_mask :: "nat \<Rightarrow> BitVector option \<Rightarrow> 8 word list" where
  "packed_stack_mask bits m =
     map (\<lambda>k. horner_sum of_bool 2 (map (\<lambda>b. 8 * k + b < bits \<and> mask_bit m (8 * k + b)) [0..<8]))
       [0..<RoundUp bits kBitsPerByte div kBitsPerByte]"

text \<open>
  A stack map's dex-register map, as the specification identifies it: the register count
  \<open>N\<close>, the live mask, and the slice of the shared index array that starts at the
  entry's start index and has one element per live register. Two maps are bit-identical
  when all three agree.
\<close>

definition dex_map_slice :: "nat list \<Rightarrow> StackMapEntry \<Rightarrow> nat list" where
  "dex_map_slice locs e =
     slice locs (dex_register_locations_start_index e)
       (NumSetBits_opt (live_dex_registers_mask e))"

definition same_dex_maps :: "nat list \<Rightarrow> StackMapEntry \<Rightarrow> StackMapEntry \<Rightarrow> bool" where
  "same_dex_maps locs a b =
     (num_dex_registers a = num_dex_registers b
      \<and> live_dex_registers_mask a = live_dex_registers_mask b
      \<and> dex_map_slice locs a = dex_map_slice locs b)"

section \<open>Invariants used in the proofs\<close>

text \<open>The dedupe table maps the keys seen so far, in order, to 0, 1, 2, ...\<close>

definition dense :: "('k \<times> nat) list \<Rightarrow> bool" where
  "dense m = (distinct (map fst m) \<and> map snd m = [0..<length m])"

text \<open>
  The first \<open>n\<close> slots of \<open>B\<close> bytes of the stack-mask buffer, the dedup table that keys
  them, and the buffer's padding bits (those at or above the bit width in each slot).
\<close>

definition slots :: "8 word list \<Rightarrow> nat \<Rightarrow> nat \<Rightarrow> 8 word list list" where
  "slots buf B n = map (\<lambda>j. slice buf (j * B) B) [0..<n]"

definition slot_table :: "nat \<Rightarrow> nat \<Rightarrow> (nat \<times> nat) list" where
  "slot_table B n = map (\<lambda>j. (j * B, j)) [0..<n]"

definition padding_clear :: "nat \<Rightarrow> nat \<Rightarrow> nat \<Rightarrow> 8 word list \<Rightarrow> bool" where
  "padding_clear bits B cap buf =
     (\<forall>j k b. j < cap \<and> k < B \<and> b < 8 \<and> bits \<le> 8 * k + b \<longrightarrow> \<not> bit (buf ! (j * B + k)) b)"

text \<open>
  The invariant of the streaming phase. A live mask is absent exactly when the register
  count is 0 and has that width otherwise, and an entry's slice lies inside the shared
  index array. A hash bucket holds indices of recorded entries with that hash and no
  back-reference; entries in one bucket have pairwise different maps; an entry without
  a back-reference is in the bucket of its hash (as long as the sentinel is not itself
  an index); a back-reference points to a strictly earlier entry of the same map and
  hash that has no back-reference of its own.
\<close>

definition wf_mask :: "32 word \<Rightarrow> BitVector option \<Rightarrow> bool" where
  "wf_mask n m = (case m of None \<Rightarrow> n = 0 | Some v \<Rightarrow> n \<noteq> 0 \<and> length v = unat n)"

definition wf_entry :: "nat list \<Rightarrow> StackMapEntry \<Rightarrow> bool" where
  "wf_entry locs e =
     (wf_mask (num_dex_registers e) (live_dex_registers_mask e)
      \<and> dex_register_locations_start_index e + NumSetBits_opt (live_dex_registers_mask e)
          \<le> length locs)"

definition buckets_ok :: "StackMapEntry list \<Rightarrow> (32 word \<rightharpoonup> nat list) \<Rightarrow> bool" where
  "buckets_ok es bk =
     (\<forall>h b i. bk h = Some b \<and> i \<in> set b \<longrightarrow>
        i < length es
        \<and> same_dex_register_map_as (es ! i) = kNoSameDexMapFound
        \<and> dex_register_map_hash (es ! i) = h)"

definition back_reference_ok :: "StackMapEntry list \<Rightarrow> nat list \<Rightarrow> nat \<Rightarrow> bool" where
  "back_reference_ok es locs j =
     (same_dex_register_map_as (es ! j) = kNoSameDexMapFound
      \<or> (same_dex_register_map_as (es ! j) < j
         \<and> same_dex_maps locs (es ! same_dex_register_map_as (es ! j)) (es ! j)
         \<and> same_dex_register_map_as (es ! same_dex_register_map_as (es ! j))
             = kNoSameDexMapFound
         \<and> dex_register_map_hash (es ! same_dex_register_map_as (es ! j))
             = dex_register_map_hash (es ! j)))"

definition unmatched_in_bucket ::
  "StackMapEntry list \<Rightarrow> (32 word \<rightharpoonup> nat list) \<Rightarrow> bool" where
  "unmatched_in_bucket es bk =
     (length es \<le> kNoSameDexMapFound \<longrightarrow>
        (\<forall>j < length es. same_dex_register_map_as (es ! j) = kNoSameDexMapFound \<longrightarrow>
           (\<exists>b. bk (dex_register_map_hash (es ! j)) = Some b \<and> j \<in> set b)))"

definition buckets_distinct ::
  "StackMapEntry list \<Rightarrow> nat list \<Rightarrow> (32 word \<rightharpoonup> nat list) \<Rightarrow> bool" where
  "buckets_distinct es locs bk =
     (\<forall>h b i i'. bk h = Some b \<and> i \<in> set b \<and> i' \<in> set b \<and> i \<noteq> i' \<longrightarrow>
        \<not> same_dex_maps locs (es ! i) (es ! i'))"

definition entries_inv ::
  "StackMapEntry list \<Rightarrow> nat list \<Rightarrow> (32 word \<rightharpoonup> nat list) \<Rightarrow> bool" where
  "entries_inv es locs bk =
     ((\<forall>e \<in> set es. wf_entry locs e)
      \<and> buckets_ok es bk
      \<and> (\<forall>j < length es. back_reference_ok es locs j)
      \<and> unmatched_in_bucket es bk
      \<and> buckets_distinct es locs bk)"

definition stream_inv :: "StackMapStream \<Rightarrow> bool" where
  "stream_inv s =
     (entries_inv (stack_maps s) (dex_register_locations s) (dex_map_hash_to_stack_map_indices s)
      \<and> wf_entry (dex_register_locations s) (current_entry s))"

text \<open>The three ways \<^verbatim>\<open>FindEntryWithTheSameDexMap\<close> ends: a new bucket, a grown bucket, a match.\<close>

definition snoc_case ::
  "StackMapEntry list \<Rightarrow> nat list \<Rightarrow> (32 word \<rightharpoonup> nat list) \<Rightarrow> StackMapEntry \<Rightarrow> nat
     \<Rightarrow> (32 word \<rightharpoonup> nat list) \<Rightarrow> bool" where
  "snoc_case es locs bk cur same bk' =
     ((bk (dex_register_map_hash cur) = None
        \<and> same = kNoSameDexMapFound
        \<and> bk' = bk(dex_register_map_hash cur \<mapsto> [length es]))
      \<or> (\<exists>b. bk (dex_register_map_hash cur) = Some b
            \<and> same = kNoSameDexMapFound
            \<and> bk' = bk(dex_register_map_hash cur \<mapsto> b @ [length es])
            \<and> (\<forall>i \<in> set b. \<not> same_dex_maps locs (es ! i) cur))
      \<or> (\<exists>b. bk (dex_register_map_hash cur) = Some b
            \<and> same \<in> set b
            \<and> bk' = bk
            \<and> same_dex_maps locs (es ! same) cur))"

section \<open>Invariants of the writer\<close>

text \<open>
  The bytes \<^verbatim>\<open>ComputeDexRegisterMapsSize\<close> counts for a stack map whose own map is never
  written: the entry has registers, none of them live, and no back-reference.
\<close>

definition dead_map_bytes_of :: "StackMapEntry \<Rightarrow> nat" where
  "dead_map_bytes_of e =
     (if same_dex_register_map_as e = kNoSameDexMapFound \<and> num_dex_registers e \<noteq> 0
         \<and> NumSetBits_opt (live_dex_registers_mask e) = 0
      then DexRegisterMap_kFixedSize + GetLiveBitMaskSize (num_dex_registers e) else 0)"

definition dead_map_bytes :: "StackMapEntry list \<Rightarrow> nat" where
  "dead_map_bytes es = sum_list (map dead_map_bytes_of es)"

text \<open>
  What the loop of \<^verbatim>\<open>FillIn\<close> has established after the entries \<open>es\<close>, with \<open>ws\<close> the stack
  maps written and \<open>nxt\<close> the write cursor of the dex-register-map region: an entry
  without registers or without live registers has the sentinel offset, an entry with a
  back-reference has the offset of the entry it names, and any other entry has an offset
  below the cursor.
\<close>

definition offsets_ok :: "StackMapEntry list \<Rightarrow> StackMapOut list \<Rightarrow> nat \<Rightarrow> bool" where
  "offsets_ok es ws nxt =
     (length ws = length es
      \<and> (\<forall>j < length es.
            ((num_dex_registers (es ! j) = 0
                \<or> NumSetBits_opt (live_dex_registers_mask (es ! j)) = 0)
               \<longrightarrow> out_dex_register_map_offset (ws ! j) = kNoDexRegisterMap)
          \<and> (num_dex_registers (es ! j) \<noteq> 0
               \<and> NumSetBits_opt (live_dex_registers_mask (es ! j)) \<noteq> 0
               \<and> same_dex_register_map_as (es ! j) \<noteq> kNoSameDexMapFound
               \<longrightarrow> same_dex_register_map_as (es ! j) < j
                   \<and> out_dex_register_map_offset (ws ! j)
                       = out_dex_register_map_offset (ws ! same_dex_register_map_as (es ! j)))
          \<and> (num_dex_registers (es ! j) \<noteq> 0
               \<and> NumSetBits_opt (live_dex_registers_mask (es ! j)) \<noteq> 0
               \<and> same_dex_register_map_as (es ! j) = kNoSameDexMapFound
               \<longrightarrow> out_dex_register_map_offset (ws ! j) < nxt)))"

text \<open>Every dex-register map written so far is non-empty and lies inside the sized region.\<close>

definition materialised_ok :: "CodeInfoEncoding \<Rightarrow> DexRegisterMapOut list \<Rightarrow> bool" where
  "materialised_ok enc ms =
     (\<forall>m \<in> set ms. 0 < map_size m
                  \<and> map_offset m + map_size m \<le> dex_register_map_num_bytes enc)"

text \<open>An entry whose dex-register map is not emitted: no registers, or none live.\<close>

definition map_absent :: "StackMapEntry \<Rightarrow> bool" where
  "map_absent e =
     (num_dex_registers e = 0 \<or> NumSetBits_opt (live_dex_registers_mask e) = 0)"

text \<open>An entry without the two indices that \<^verbatim>\<open>PrepareForFillIn\<close> assigns.\<close>

definition unindexed :: "StackMapEntry \<Rightarrow> StackMapEntry" where
  "unindexed e = e \<lparr> stack_mask_index := 0, register_mask_index := 0 \<rparr>"

text \<open>The state in which the loop of \<^verbatim>\<open>FillIn\<close> starts.\<close>

definition fill_init :: fill_state where
  "fill_init = \<lparr> next_dex_register_map_offset = 0, next_inline_info_index = 0,
                 w_stack_maps = [], w_dex_register_maps = [], w_inline_infos = [],
                 w_depths = [] \<rparr>"

text \<open>
  The entry whose materialised dex-register map entry \<open>k\<close> uses: the one its
  back-reference names, or itself.
\<close>

definition representative :: "StackMapEntry list \<Rightarrow> nat \<Rightarrow> nat" where
  "representative es k =
     (if same_dex_register_map_as (es ! k) = kNoSameDexMapFound then k
      else same_dex_register_map_as (es ! k))"

section \<open>Example streams\<close>

text \<open>An open stack-map entry with three dex registers, as \<^verbatim>\<open>BeginStackMapEntry\<close> leaves it.\<close>

definition open_entry_example :: StackMapStream where
  "open_entry_example =
     (StackMapStream_init kX86)
       \<lparr> current_entry := StackMapEntry_default
           \<lparr> dex_pc := 10, num_dex_registers := 3,
             live_dex_registers_mask := Some (Create 3) \<rparr> \<rparr>"

text \<open>
  A stream of three stack maps. The first has two dex registers (one live, one dead)
  and two inline frames: one by method pointer with no dex PC, one by method index
  with dex PC 7 and one live register. The second repeats the first one's dex-register
  map and has no stack mask. The third has three registers, all dead.
\<close>

definition example_method_1 :: ArtMethod where
  "example_method_1 = \<lparr> address = 0x7000001000, dex_method_index = 17, dex_file = 1 \<rparr>"

definition example_method_2 :: ArtMethod where
  "example_method_2 = \<lparr> address = 0x7000002000, dex_method_index = 42, dex_file = 1 \<rparr>"

definition example_ops :: "op list" where
  "example_ops =
     [OpBeginStackMapEntry 10 4 3 (Some [False, True]) 2 2,
      OpAddDexRegisterEntry kInRegister 5,
      OpAddDexRegisterEntry kNone 0,
      OpBeginInlineInfoEntry True example_method_1 kDexNoIndex 0 1,
      OpEndInlineInfoEntry,
      OpBeginInlineInfoEntry False example_method_2 7 1 1,
      OpAddDexRegisterEntry kConstant 3,
      OpEndInlineInfoEntry,
      OpEndStackMapEntry,
      OpBeginStackMapEntry 20 8 3 None 2 0,
      OpAddDexRegisterEntry kInRegister 5,
      OpAddDexRegisterEntry kNone 0,
      OpEndStackMapEntry,
      OpBeginStackMapEntry 30 12 1 (Some [True]) 3 0,
      OpAddDexRegisterEntry kNone 0,
      OpAddDexRegisterEntry kNone 0,
      OpAddDexRegisterEntry kNone 0,
      OpEndStackMapEntry]"

definition example_stream :: StackMapStream where
  "example_stream =
     \<lparr> instruction_set = kX86,
       stack_maps =
         [\<lparr> dex_pc = 10, native_pc_code_offset = 4, register_mask = 3,
             sp_mask = Some [False, True], num_dex_registers = 2, inlining_depth = 2,
             dex_register_locations_start_index = 0, inline_infos_start_index = 0,
             live_dex_registers_mask = Some [True, False], dex_register_map_hash = 7,
             same_dex_register_map_as = 4294967295, stack_mask_index = 0,
             register_mask_index = 0 \<rparr>,
          \<lparr> dex_pc = 20, native_pc_code_offset = 8, register_mask = 3,
             sp_mask = None, num_dex_registers = 2, inlining_depth = 0,
             dex_register_locations_start_index = 2, inline_infos_start_index = 2,
             live_dex_registers_mask = Some [True, False], dex_register_map_hash = 7,
             same_dex_register_map_as = 0, stack_mask_index = 0,
             register_mask_index = 0 \<rparr>,
          \<lparr> dex_pc = 30, native_pc_code_offset = 12, register_mask = 1,
             sp_mask = Some [True], num_dex_registers = 3, inlining_depth = 0,
             dex_register_locations_start_index = 3, inline_infos_start_index = 2,
             live_dex_registers_mask = Some [False, False, False],
             dex_register_map_hash = 0, same_dex_register_map_as = 4294967295,
             stack_mask_index = 0, register_mask_index = 0 \<rparr>],
       location_catalog_entries =
         [DexRegisterLocation kInRegister 5, DexRegisterLocation kConstant 3],
       location_catalog_entries_indices =
         [DexRegisterLocation kInRegister 5 \<mapsto> 0, DexRegisterLocation kConstant 3 \<mapsto> 1],
       dex_register_locations = [0, 1, 0],
       inline_infos =
         [\<lparr> ii_dex_pc = 4294967295, ii_method = 0x7000001000, ii_method_index = 0,
             ii_num_dex_registers = 0, ii_live_dex_registers_mask = None,
             ii_dex_register_locations_start_index = 1 \<rparr>,
          \<lparr> ii_dex_pc = 7, ii_method = 0, ii_method_index = 42,
             ii_num_dex_registers = 1, ii_live_dex_registers_mask = Some [True],
             ii_dex_register_locations_start_index = 1 \<rparr>],
       stack_masks = [], register_masks = [], stack_mask_max = 1,
       dex_pc_max = 30, register_mask_max = 3,
       number_of_stack_maps_with_inline_info = 1,
       dex_map_hash_to_stack_map_indices = [7 \<mapsto> [0], 0 \<mapsto> [2]],
       current_entry = StackMapEntry_default,
       current_inline_info = InlineInfoEntry_default,
       code_info_encoding = [], needed_size = 0,
       current_dex_register = 3, in_inline_frame = False \<rparr>"

text \<open>The empty stream after \<^verbatim>\<open>PrepareForFillIn\<close>: a header of 20 bytes and nothing else.\<close>

definition empty_prepared :: StackMapStream where
  "empty_prepared =
     (StackMapStream_init kX86)
       \<lparr> code_info_encoding := [0, 0, 0, 0, 0, 0, 1, 0, 0, 0, 0, 0, 0, 0, 0, 0, 0, 0, 0, 0],
         needed_size := 20 \<rparr>"

text \<open>
  The stream of three stack maps after \<^verbatim>\<open>PrepareForFillIn\<close> (needed size 42), its encoding,
  and what \<^verbatim>\<open>FillIn\<close> writes for it: two dex-register maps of two bytes each (the first
  stack map's and its second inline frame's), while five bytes were sized.
\<close>

definition example_encoding :: CodeInfoEncoding where
  "example_encoding =
     \<lparr> dex_register_map_num_entries = 0, dex_register_map_num_bytes = 5,
       location_catalog_num_entries = 2, location_catalog_num_bytes = 2,
       inline_info_num_entries = 2,
       inline_info_encoding =
         \<lparr> method_index_bits = 7, inline_dex_pc_bits = 4, extra_data_bits = 13,
           inline_dex_register_map_bits = 3 \<rparr>,
       stack_mask_num_bits = 2, stack_mask_num_entries = 3,
       register_mask_num_bits = 2, register_mask_num_entries = 2,
       stack_map_num_entries = 3,
       stack_map_encoding =
         \<lparr> native_pc_bits = 4, dex_pc_bits = 5, dex_register_map_bits = 3,
           inline_info_bits = 2, register_mask_index_bits = 2, stack_mask_index_bits = 2 \<rparr> \<rparr>"

definition example_prepared :: StackMapStream where
  "example_prepared =
     example_stream
       \<lparr> stack_masks := [2, 0, 1],
         stack_maps :=
           [\<lparr> dex_pc = 10, native_pc_code_offset = 4, register_mask = 3,
               sp_mask = Some [False, True], num_dex_registers = 2, inlining_depth = 2,
               dex_register_locations_start_index = 0, inline_infos_start_index = 0,
               live_dex_registers_mask = Some [True, False], dex_register_map_hash = 7,
               same_dex_register_map_as = 4294967295, stack_mask_index = 0,
               register_mask_index = 0 \<rparr>,
            \<lparr> dex_pc = 20, native_pc_code_offset = 8, register_mask = 3,
               sp_mask = None, num_dex_registers = 2, inlining_depth = 0,
               dex_register_locations_start_index = 2, inline_infos_start_index = 2,
               live_dex_registers_mask = Some [True, False], dex_register_map_hash = 7,
               same_dex_register_map_as = 0, stack_mask_index = 1,
               register_mask_index = 0 \<rparr>,
            \<lparr> dex_pc = 30, native_pc_code_offset = 12, register_mask = 1,
               sp_mask = Some [True], num_dex_registers = 3, inlining_depth = 0,
               dex_register_locations_start_index = 3, inline_infos_start_index = 2,
               live_dex_registers_mask = Some [False, False, False],
               dex_register_map_hash = 0, same_dex_register_map_as = 4294967295,
               stack_mask_index = 2, register_mask_index = 1 \<rparr>],
         register_masks := [3, 1, 0],
         code_info_encoding := [0, 5, 2, 2, 3, 4, 5, 3, 2, 2, 2, 2, 2, 3, 2, 2, 7, 4, 13, 3],
         needed_size := 42 \<rparr>"

definition example_filled :: fill_state where
  "example_filled =
     \<lparr> next_dex_register_map_offset = 4, next_inline_info_index = 2,
       w_stack_maps =
         [\<lparr> out_dex_pc = 10, out_native_pc_code_offset = 4, out_register_mask_index = 0,
             out_stack_mask_index = 0, out_dex_register_map_offset = 0,
             out_inline_info_index = Some 0 \<rparr>,
          \<lparr> out_dex_pc = 20, out_native_pc_code_offset = 8, out_register_mask_index = 0,
             out_stack_mask_index = 1, out_dex_register_map_offset = 0,
             out_inline_info_index = Some 4294967295 \<rparr>,
          \<lparr> out_dex_pc = 30, out_native_pc_code_offset = 12, out_register_mask_index = 1,
             out_stack_mask_index = 2, out_dex_register_map_offset = 4294967295,
             out_inline_info_index = Some 4294967295 \<rparr>],
       w_dex_register_maps =
         [\<lparr> map_offset = 0, map_size = 2, map_num_dex_registers = 2,
             map_live_bit_mask = [True, False], map_catalog_indices = [0],
             map_catalog_size = 2 \<rparr>,
          \<lparr> map_offset = 2, map_size = 2, map_num_dex_registers = 1,
             map_live_bit_mask = [True], map_catalog_indices = [1],
             map_catalog_size = 2 \<rparr>],
       w_inline_infos =
         [\<lparr> io_index = 0, io_method_index = 112, io_extra_data = 4096,
             io_dex_pc = 4294967295, io_dex_register_map_offset = 4294967295 \<rparr>,
          \<lparr> io_index = 1, io_method_index = 42, io_extra_data = 1, io_dex_pc = 7,
             io_dex_register_map_offset = 2 \<rparr>],
       w_depths = [(0, 2)] \<rparr>"

definition example_out :: CodeInfoOut where
  "example_out =
     \<lparr> out_header = [0, 5, 2, 2, 3, 4, 5, 3, 2, 2, 2, 2, 2, 3, 2, 2, 7, 4, 13, 3],
       out_encoding = example_encoding,
       out_catalog = [(0, DexRegisterLocation kInRegister 5),
                      (1, DexRegisterLocation kConstant 3)],
       out_stack_maps = w_stack_maps example_filled,
       out_dex_register_maps = w_dex_register_maps example_filled,
       out_dex_register_maps_bytes = 4,
       out_inline_infos = w_inline_infos example_filled,
       out_depths = [(0, 2)],
       out_stack_masks = [[False, True], [False, False], [True, False]],
       out_register_masks = [3, 1] \<rparr>"

text \<open>
  A call sequence that passes every assertion but adds a register to a stack map after
  one of its inline frames, the stream it builds (two stack maps with the same
  dex-register map and different hashes), and what \<^verbatim>\<open>PrepareForFillIn\<close> (needed size 30)
  and \<^verbatim>\<open>FillIn\<close> make of it.
\<close>

definition reset_cursor_ops :: "op list" where
  "reset_cursor_ops =
     [OpBeginStackMapEntry 1 4 0 None 2 1,
      OpAddDexRegisterEntry kInRegister 5,
      OpBeginInlineInfoEntry False example_method_2 7 0 1,
      OpEndInlineInfoEntry,
      OpAddDexRegisterEntry kInRegister 5,
      OpEndStackMapEntry,
      OpBeginStackMapEntry 2 8 0 None 2 0,
      OpAddDexRegisterEntry kInRegister 5,
      OpAddDexRegisterEntry kNone 0,
      OpEndStackMapEntry]"

definition reset_cursor_stream :: StackMapStream where
  "reset_cursor_stream =
     \<lparr> instruction_set = kX86,
       stack_maps =
         [\<lparr> dex_pc = 1, native_pc_code_offset = 4, register_mask = 0,
             sp_mask = None, num_dex_registers = 2, inlining_depth = 1,
             dex_register_locations_start_index = 0, inline_infos_start_index = 0,
             live_dex_registers_mask = Some [True, False], dex_register_map_hash = 14,
             same_dex_register_map_as = 4294967295, stack_mask_index = 0,
             register_mask_index = 0 \<rparr>,
          \<lparr> dex_pc = 2, native_pc_code_offset = 8, register_mask = 0,
             sp_mask = None, num_dex_registers = 2, inlining_depth = 0,
             dex_register_locations_start_index = 2, inline_infos_start_index = 1,
             live_dex_registers_mask = Some [True, False], dex_register_map_hash = 7,
             same_dex_register_map_as = 4294967295, stack_mask_index = 0,
             register_mask_index = 0 \<rparr>],
       location_catalog_entries = [DexRegisterLocation kInRegister 5],
       location_catalog_entries_indices = [DexRegisterLocation kInRegister 5 \<mapsto> 0],
       dex_register_locations = [0, 0, 0],
       inline_infos =
         [\<lparr> ii_dex_pc = 7, ii_method = 0, ii_method_index = 42,
             ii_num_dex_registers = 0, ii_live_dex_registers_mask = None,
             ii_dex_register_locations_start_index = 1 \<rparr>],
       stack_masks = [], register_masks = [], stack_mask_max = - 1,
       dex_pc_max = 2, register_mask_max = 0,
       number_of_stack_maps_with_inline_info = 1,
       dex_map_hash_to_stack_map_indices = [14 \<mapsto> [0], 7 \<mapsto> [1]],
       current_entry = StackMapEntry_default,
       current_inline_info = InlineInfoEntry_default,
       code_info_encoding = [], needed_size = 0,
       current_dex_register = 2, in_inline_frame = False \<rparr>"

definition reset_cursor_encoding :: CodeInfoEncoding where
  "reset_cursor_encoding =
     \<lparr> dex_register_map_num_entries = 0, dex_register_map_num_bytes = 4,
       location_catalog_num_entries = 1, location_catalog_num_bytes = 1,
       inline_info_num_entries = 1,
       inline_info_encoding =
         \<lparr> method_index_bits = 6, inline_dex_pc_bits = 4, extra_data_bits = 1,
           inline_dex_register_map_bits = 3 \<rparr>,
       stack_mask_num_bits = 0, stack_mask_num_entries = 1,
       register_mask_num_bits = 0, register_mask_num_entries = 1,
       stack_map_num_entries = 2,
       stack_map_encoding =
         \<lparr> native_pc_bits = 4, dex_pc_bits = 2, dex_register_map_bits = 3,
           inline_info_bits = 1, register_mask_index_bits = 1, stack_mask_index_bits = 1 \<rparr> \<rparr>"

definition reset_cursor_prepared :: StackMapStream where
  "reset_cursor_prepared =
     reset_cursor_stream
       \<lparr> register_masks := [0, 0],
         code_info_encoding := [0, 4, 1, 1, 2, 4, 2, 3, 1, 1, 1, 1, 0, 1, 0, 1, 6, 4, 1, 3],
         needed_size := 30 \<rparr>"

definition reset_cursor_filled :: fill_state where
  "reset_cursor_filled =
     \<lparr> next_dex_register_map_offset = 4, next_inline_info_index = 1,
       w_stack_maps =
         [\<lparr> out_dex_pc = 1, out_native_pc_code_offset = 4, out_register_mask_index = 0,
             out_stack_mask_index = 0, out_dex_register_map_offset = 0,
             out_inline_info_index = Some 0 \<rparr>,
          \<lparr> out_dex_pc = 2, out_native_pc_code_offset = 8, out_register_mask_index = 0,
             out_stack_mask_index = 0, out_dex_register_map_offset = 2,
             out_inline_info_index = Some 4294967295 \<rparr>],
       w_dex_register_maps =
         [\<lparr> map_offset = 0, map_size = 2, map_num_dex_registers = 2,
             map_live_bit_mask = [True, False], map_catalog_indices = [0],
             map_catalog_size = 1 \<rparr>,
          \<lparr> map_offset = 2, map_size = 2, map_num_dex_registers = 2,
             map_live_bit_mask = [True, False], map_catalog_indices = [0],
             map_catalog_size = 1 \<rparr>],
       w_inline_infos =
         [\<lparr> io_index = 0, io_method_index = 42, io_extra_data = 1, io_dex_pc = 7,
             io_dex_register_map_offset = 4294967295 \<rparr>],
       w_depths = [(0, 1)] \<rparr>"

definition reset_cursor_out :: CodeInfoOut where
  "reset_cursor_out =
     \<lparr> out_header = [0, 4, 1, 1, 2, 4, 2, 3, 1, 1, 1, 1, 0, 1, 0, 1, 6, 4, 1, 3],
       out_encoding = reset_cursor_encoding,
       out_catalog = [(0, DexRegisterLocation kInRegister 5)],
       out_stack_maps = w_stack_maps reset_cursor_filled,
       out_dex_register_maps = w_dex_register_maps reset_cursor_filled,
       out_dex_register_maps_bytes = 4,
       out_inline_infos = w_inline_infos reset_cursor_filled,
       out_depths = [(0, 1)],
       out_stack_masks = [],
       out_register_masks = [0] \<rparr>"

section \<open>Properties of the streaming operations\<close>

lemma open_entry_example_run:
  "run [OpBeginStackMapEntry 10 0 0 None 3 0] (StackMapStream_init kX86) = Inr (open_entry_example\<lparr>
      current_entry := (current_entry open_entry_example)\<lparr>same_dex_register_map_as := kNoSameDexMapFound\<rparr>, dex_pc_max := 10\<rparr>)"
  by (simp add: open_entry_example_def and_then_def BeginStackMapEntry_def StackMapStream_init_def
      StackMapEntry_default_def FromOffset_def)

lemmas op_defs = and_then_def at_index_def BeginStackMapEntry_def AddDexRegisterEntry_def
  BeginInlineInfoEntry_def EndInlineInfoEntry_def EndStackMapEntry_def
  FindEntryWithTheSameDexMap_def HaveTheSameDexMaps_def GetStackMap_def intern_location_def
  StackMapStream_init_def StackMapEntry_default_def InlineInfoEntry_default_def
  FromOffset_def Create_def SetBit_def NumSetBits_def Equal_def slice_def
  kNoSameDexMapFound_def kDexNoIndex_def example_method_1_def example_method_2_def

lemma replicate_2: "replicate 2 x = [x, x]"
  by (simp add: numeral_2_eq_2)

lemma replicate_3: "replicate 3 x = [x, x, x]"
  by (simp add: numeral_3_eq_3)

lemma example_run: "run example_ops (StackMapStream_init kX86) = Inr example_stream"
  unfolding example_ops_def example_stream_def
  apply (simp add: op_defs Let_def replicate_2 replicate_3)
  apply (simp add: numeral_2_eq_2)
  done

text \<open>
  C8. \<^verbatim>\<open>AddDexRegisterEntry(kind, value)\<close> with \<open>kind = None\<close> and the cursor below the
  applicable register count returns normally, advances the cursor by exactly one and
  changes nothing else: the state is the old one but for the cursor, so the location
  catalog, its index map, the shared catalog-index array, both live-register masks
  and the entry's rolling hash keep their values.
\<close>

theorem AddDexRegisterEntry_kNone_frame:
  assumes "current_dex_register s < applicable_num_dex_registers s"
  shows "\<exists>s'. AddDexRegisterEntry kNone v s = Inr s'
           \<and> unat (current_dex_register s') = unat (current_dex_register s) + 1
           \<and> s' = s \<lparr> current_dex_register := current_dex_register s' \<rparr>
           \<and> location_catalog_entries s' = location_catalog_entries s
           \<and> location_catalog_entries_indices s' = location_catalog_entries_indices s
           \<and> dex_register_locations s' = dex_register_locations s
           \<and> live_dex_registers_mask (current_entry s') = live_dex_registers_mask (current_entry s)
           \<and> ii_live_dex_registers_mask (current_inline_info s')
               = ii_live_dex_registers_mask (current_inline_info s)
           \<and> dex_register_map_hash (current_entry s') = dex_register_map_hash (current_entry s)"
proof -
  have "unat (current_dex_register s) < unat (applicable_num_dex_registers s)"
    using assms by (simp add: word_less_nat_alt)
  moreover have "unat (applicable_num_dex_registers s) < 2 ^ 32"
    using unsigned_less [of "applicable_num_dex_registers s", where ?'a = nat] by simp
  ultimately have "unat (current_dex_register s) + unat (1 :: 32 word) < 2 ^ LENGTH(32)"
    by simp
  then have "unat (current_dex_register s + 1) = unat (current_dex_register s) + 1"
    using unat_add_lem [of "current_dex_register s" 1] by simp
  then show ?thesis
    by (simp add: AddDexRegisterEntry_def)
qed

theorem AddDexRegisterEntry_kNone_frame_witness:
  "current_dex_register open_entry_example < applicable_num_dex_registers open_entry_example
   \<and> (\<exists>s'. AddDexRegisterEntry kNone 0 open_entry_example = Inr s'
           \<and> unat (current_dex_register s') = 1
           \<and> dex_register_locations s' = []
           \<and> live_dex_registers_mask (current_entry s') = Some [False, False, False])"
proof -
  have h: "current_dex_register open_entry_example
             < applicable_num_dex_registers open_entry_example"
    by (simp add: open_entry_example_def applicable_num_dex_registers_def
        StackMapStream_init_def StackMapEntry_default_def)
  from AddDexRegisterEntry_kNone_frame [OF h, of 0]
  obtain s' where "AddDexRegisterEntry kNone 0 open_entry_example = Inr s'"
    and "unat (current_dex_register s') = unat (current_dex_register open_entry_example) + 1"
    and "dex_register_locations s' = dex_register_locations open_entry_example"
    and "live_dex_registers_mask (current_entry s')
           = live_dex_registers_mask (current_entry open_entry_example)"
    by blast
  then show ?thesis
    using h
    by (simp add: open_entry_example_def StackMapStream_init_def StackMapEntry_default_def
        Create_def numeral_3_eq_3)
qed

text \<open>
  C9. \<^verbatim>\<open>BeginStackMapEntry\<close> recognises an open entry by \<open>current_entry.dex_pc \<noteq> 0\<close>, and
  accepts every dex PC but \<open>-1\<close>. So after a begin with dex PC 0 a second begin, with
  no \<^verbatim>\<open>EndStackMapEntry\<close> between them, passes both assertions: it returns normally,
  nothing was appended to the stack maps, and the open entry now carries the second
  call's arguments.
\<close>

theorem BeginStackMapEntry_nested_begin_undetected:
  assumes "dex_pc (current_entry s) = 0" and "pc2 \<noteq> - 1"
  shows "\<exists>s1 s2.
           BeginStackMapEntry 0 npc1 rm1 sp1 n1 d1 s = Inr s1
         \<and> BeginStackMapEntry pc2 npc2 rm2 sp2 n2 d2 s1 = Inr s2
         \<and> stack_maps s2 = stack_maps s
         \<and> dex_pc (current_entry s2) = pc2
         \<and> native_pc_code_offset (current_entry s2) = FromOffset npc2 (instruction_set s)
         \<and> register_mask (current_entry s2) = rm2
         \<and> sp_mask (current_entry s2) = sp2
         \<and> num_dex_registers (current_entry s2) = n2
         \<and> inlining_depth (current_entry s2) = d2"
  using assms by (simp add: BeginStackMapEntry_def)

theorem BeginStackMapEntry_nested_begin_undetected_witness:
  "dex_pc (current_entry (StackMapStream_init kX86)) = 0 \<and> (7 :: 32 word) \<noteq> - 1
   \<and> (\<exists>s1 s2.
           BeginStackMapEntry 0 4 1 None 2 0 (StackMapStream_init kX86) = Inr s1
         \<and> BeginStackMapEntry 7 8 2 None 1 0 s1 = Inr s2
         \<and> stack_maps s2 = []
         \<and> dex_pc (current_entry s2) = 7
         \<and> num_dex_registers (current_entry s2) = 1)"
proof -
  have h1: "dex_pc (current_entry (StackMapStream_init kX86)) = 0"
    by (simp add: StackMapStream_init_def StackMapEntry_default_def)
  have h2: "(7 :: 32 word) \<noteq> - 1"
    by simp
  from BeginStackMapEntry_nested_begin_undetected [OF h1 h2, of 4 1 None 2 0 8 2 None 1 0]
  obtain s1 s2 where "BeginStackMapEntry 0 4 1 None 2 0 (StackMapStream_init kX86) = Inr s1"
    and "BeginStackMapEntry 7 8 2 None 1 0 s1 = Inr s2"
    and "stack_maps s2 = stack_maps (StackMapStream_init kX86)"
    and "dex_pc (current_entry s2) = 7"
    and "num_dex_registers (current_entry s2) = 1"
    by blast
  then show ?thesis
    using h1 h2 by (auto simp: StackMapStream_init_def)
qed

section \<open>Properties of the encoding sizer\<close>

lemma inline_maxima_frames_fold:
  "inline_info_index + j \<le> length infos \<Longrightarrow>
   inline_maxima_frames infos j inline_info_index acc
     = Inr (inline_info_index + j,
            fold inline_maxima_update (slice infos inline_info_index j) acc)"
proof (induction j arbitrary: inline_info_index acc)
  case 0
  then show ?case by (simp add: slice_def)
next
  case (Suc j)
  from Suc.prems have lt: "inline_info_index < length infos" by simp
  have sl: "slice infos inline_info_index (Suc j)
              = infos ! inline_info_index # slice infos (Suc inline_info_index) j"
    using lt by (simp add: slice_def take_Suc Cons_nth_drop_Suc [symmetric] hd_drop_conv_nth drop_Suc tl_drop)
  show ?case
    using Suc.IH [of "Suc inline_info_index"] Suc.prems lt
    by (simp add: and_then_def at_index_def sl)
qed

lemma slice_append_adjacent:
  "slice xs i j @ slice xs (i + j) k = slice xs i (j + k)"
  by (simp add: slice_def take_add add.commute)

lemma inline_maxima_entries_fold:
  "inline_info_index + total_inlining_depth entries \<le> length infos \<Longrightarrow>
   inline_maxima_entries infos entries inline_info_index acc
     = Inr (inline_info_index + total_inlining_depth entries,
            fold inline_maxima_update
              (slice infos inline_info_index (total_inlining_depth entries)) acc)"
proof (induction entries arbitrary: inline_info_index acc)
  case Nil
  then show ?case by (simp add: total_inlining_depth_def slice_def)
next
  case (Cons entry rest)
  let ?d = "unat (inlining_depth entry)"
  have tot: "total_inlining_depth (entry # rest) = ?d + total_inlining_depth rest"
    by (simp add: total_inlining_depth_def)
  from Cons.prems tot have a: "inline_info_index + ?d \<le> length infos"
    and b: "(inline_info_index + ?d) + total_inlining_depth rest \<le> length infos"
    by simp_all
  show ?case
    by (simp add: inline_maxima_frames_fold [OF a] Cons.IH [OF b] and_then_def tot
        slice_append_adjacent [symmetric] add.assoc)
qed

lemma max_dex_pc_of_snoc:
  "max_dex_pc_of (pcs @ [pc])
     = (if pc \<noteq> kDexNoIndex \<and> (max_dex_pc_of pcs = kDexNoIndex \<or> max_dex_pc_of pcs < pc)
        then pc else max_dex_pc_of pcs)"
proof (cases "filter (\<lambda>pc. pc \<noteq> kDexNoIndex) pcs = []")
  case True
  then show ?thesis by (simp add: max_dex_pc_of_def)
next
  case False
  let ?real = "filter (\<lambda>pc. pc \<noteq> kDexNoIndex) pcs"
  have ne: "set ?real \<noteq> {}"
    using False by (metis set_empty)
  then have "Max (set ?real) \<in> set ?real"
    by (intro Max_in) simp_all
  then have sentinel: "Max (set ?real) \<noteq> kDexNoIndex"
    by simp
  have old: "max_dex_pc_of pcs = Max (set ?real)"
    using False by (simp add: max_dex_pc_of_def)
  show ?thesis
  proof (cases "pc = kDexNoIndex")
    case True
    then show ?thesis by (simp add: max_dex_pc_of_def)
  next
    case pc: False
    have "max_dex_pc_of (pcs @ [pc]) = Max (insert pc (set ?real))"
      using pc by (simp add: max_dex_pc_of_def)
    also have "\<dots> = max pc (Max (set ?real))"
      using ne by (intro Max_insert) simp_all
    finally show ?thesis
      using pc sentinel old by (auto simp: max_def not_less)
  qed
qed

lemma fold_inline_maxima_dex_pc:
  "fst (snd acc) = max_dex_pc_of pcs \<Longrightarrow>
   fst (snd (fold inline_maxima_update frames acc))
     = max_dex_pc_of (pcs @ map ii_dex_pc frames)"
proof (induction frames arbitrary: acc pcs)
  case Nil
  then show ?case by simp
next
  case (Cons f frames)
  have "fst (snd (inline_maxima_update f acc)) = max_dex_pc_of (pcs @ [ii_dex_pc f])"
    using Cons.prems
    by (cases acc) (simp add: inline_maxima_update_def max_dex_pc_of_snoc)
  from Cons.IH [OF this] show ?case by simp
qed

text \<open>
  C6. In \<^verbatim>\<open>ComputeInlineInfoEncoding\<close> a frame whose dex PC is \<open>kDexNoIndex\<close> never
  contributes to the computed \<open>max_dex_pc\<close>: when the stack maps' inlining depths
  account for exactly the recorded inline frames, the loop returns, and its dex-PC
  maximum is the largest dex PC among the frames that do not carry the sentinel, and
  is \<open>kDexNoIndex\<close> when every frame, or no frame, carries it.
\<close>

theorem ComputeInlineInfoMaxima_dex_pc_max:
  assumes "total_inlining_depth (stack_maps s) = length (inline_infos s)"
  shows "\<exists>method_index_max extra_data_max.
           ComputeInlineInfoMaxima s
             = Inr (method_index_max, max_dex_pc_of (map ii_dex_pc (inline_infos s)),
                    extra_data_max)"
proof -
  let ?acc = "fold inline_maxima_update (inline_infos s) (0, kDexNoIndex, 0)"
  have run: "inline_maxima_entries (inline_infos s) (stack_maps s) 0 (0, kDexNoIndex, 0)
               = Inr (length (inline_infos s), ?acc)"
    using inline_maxima_entries_fold [of 0 "stack_maps s" "inline_infos s" "(0, kDexNoIndex, 0)"]
      assms
    by (simp add: slice_def)
  have "fst (snd ?acc) = max_dex_pc_of ([] @ map ii_dex_pc (inline_infos s))"
    by (rule fold_inline_maxima_dex_pc) (simp add: max_dex_pc_of_def)
  then have "?acc = (fst ?acc, max_dex_pc_of (map ii_dex_pc (inline_infos s)), snd (snd ?acc))"
    by (cases ?acc) simp
  then show ?thesis
    using run by (auto simp: ComputeInlineInfoMaxima_def and_then_def)
qed

theorem ComputeInlineInfoMaxima_dex_pc_max_witness:
  "total_inlining_depth (stack_maps example_stream) = length (inline_infos example_stream)
   \<and> (\<exists>method_index_max extra_data_max.
          ComputeInlineInfoMaxima example_stream = Inr (method_index_max, 7, extra_data_max))"
proof -
  have h: "total_inlining_depth (stack_maps example_stream)
             = length (inline_infos example_stream)"
    by (simp add: example_stream_def total_inlining_depth_def)
  have "max_dex_pc_of (map ii_dex_pc (inline_infos example_stream)) = 7"
    by (simp add: example_stream_def max_dex_pc_of_def kDexNoIndex_def)
  with ComputeInlineInfoMaxima_dex_pc_max [OF h] h show ?thesis
    by simp
qed

section \<open>Properties of the mask interners\<close>

lemma add_key_mem: "x \<in> set acc \<Longrightarrow> add_key x acc = acc"
  by (simp add: add_key_def)

lemma add_key_new: "x \<notin> set acc \<Longrightarrow> add_key x acc = acc @ [x]"
  by (simp add: add_key_def)

lemma set_add_key: "set (add_key x acc) = insert x (set acc)"
  by (auto simp: add_key_def)

lemma distinct_add_key: "distinct acc \<Longrightarrow> distinct (add_key x acc)"
  by (simp add: add_key_def)

lemma set_fold_add_key: "set (fold add_key xs acc) = set acc \<union> set xs"
  by (induction xs arbitrary: acc) (simp_all add: set_add_key)

lemma distinct_fold_add_key: "distinct acc \<Longrightarrow> distinct (fold add_key xs acc)"
  by (induction xs arbitrary: acc) (simp_all add: distinct_add_key)

lemma fold_add_key_prefix: "\<exists>ys. fold add_key xs acc = acc @ ys"
proof (induction xs arbitrary: acc)
  case Nil
  then show ?case by simp
next
  case (Cons x xs)
  from Cons.IH [of "add_key x acc"]
  obtain ys where ys: "fold add_key xs (add_key x acc) = add_key x acc @ ys"
    by blast
  show ?case
  proof (cases "x \<in> set acc")
    case True
    with ys show ?thesis by (simp add: add_key_mem)
  next
    case False
    with ys show ?thesis by (simp add: add_key_new)
  qed
qed

lemma set_first_occurrences: "set (first_occurrences xs) = set xs"
  by (simp add: first_occurrences_def set_fold_add_key)

lemma distinct_first_occurrences: "distinct (first_occurrences xs)"
  by (simp add: first_occurrences_def distinct_fold_add_key)

lemma length_first_occurrences: "length (first_occurrences xs) = card (set xs)"
  using distinct_card [OF distinct_first_occurrences, of xs]
  by (simp add: set_first_occurrences)

lemma index_of_append_mem: "x \<in> set xs \<Longrightarrow> index_of (xs @ ys) x = index_of xs x"
  by (simp add: index_of_def takeWhile_append1 [where x = x])

lemma index_of_snoc_new: "x \<notin> set xs \<Longrightarrow> index_of (xs @ [x]) x = length xs"
  by (induction xs) (auto simp: index_of_def)

lemma index_of_nth: "x \<in> set xs \<Longrightarrow> xs ! index_of xs x = x"
  by (induction xs) (auto simp: index_of_def)

lemma index_of_less: "x \<in> set xs \<Longrightarrow> index_of xs x < length xs"
  by (induction xs) (auto simp: index_of_def)

lemma dense_map_of:
  assumes "dense m" and "k \<in> set (map fst m)"
  shows "map_of m k = Some (index_of (map fst m) k)"
proof -
  let ?i = "index_of (map fst m) k"
  have i: "?i < length m" and k: "map fst m ! ?i = k"
    using assms(2) index_of_less [of k "map fst m"] index_of_nth [of k "map fst m"] by simp_all
  have "map snd m ! ?i = [0..<length m] ! ?i"
    using assms(1) by (simp add: dense_def)
  then have "snd (m ! ?i) = ?i"
    using i by simp
  moreover have "fst (m ! ?i) = k"
    using k i by simp
  ultimately have "m ! ?i = (k, ?i)"
    by (simp add: prod_eq_iff)
  then have "(k, ?i) \<in> set m"
    using i nth_mem [of ?i m] by simp
  moreover have "distinct (map fst m)"
    using assms(1) by (simp add: dense_def)
  ultimately show ?thesis
    by (rule map_of_is_SomeI [rotated])
qed

lemma emplace_dense:
  assumes "dense m"
  shows "emplace m k (length m)
           = (zip (add_key k (map fst m)) [0..<length (add_key k (map fst m))],
              index_of (add_key k (map fst m)) k)"
    and "dense (fst (emplace m k (length m)))"
    and "map fst (fst (emplace m k (length m))) = add_key k (map fst m)"
proof -
  have "zip (map fst m) (map snd m) = m"
    by (rule zip_map_fst_snd)
  then have m_zip: "m = zip (map fst m) [0..<length m]"
    using assms by (simp add: dense_def)
  show "emplace m k (length m)
           = (zip (add_key k (map fst m)) [0..<length (add_key k (map fst m))],
              index_of (add_key k (map fst m)) k)"
  proof (cases "k \<in> set (map fst m)")
    case True
    then show ?thesis
      using dense_map_of [OF assms True] m_zip by (simp add: emplace_def add_key_def)
  next
    case False
    then have "map_of m k = None"
      by (simp add: map_of_eq_None_iff)
    then show ?thesis
      using False m_zip by (simp add: emplace_def add_key_def index_of_snoc_new)
  qed
  then show "dense (fst (emplace m k (length m)))"
    and "map fst (fst (emplace m k (length m))) = add_key k (map fst m)"
    using assms by (auto simp: dense_def add_key_def)
qed


lemma length_resize: "length (resize xs n v) = n"
  by (simp add: resize_def)

lemma length_add_key_le: "length (add_key k ks) \<le> Suc (length ks)"
  by (simp add: add_key_def)

lemma take_update_add_key:
  assumes "take (length ks) masks = ks" and "length ks < length masks"
  shows "take (length (add_key k ks)) (masks[length ks := k]) = add_key k ks"
proof (cases "k \<in> set ks")
  case True
  then show ?thesis using assms by (simp add: add_key_mem)
next
  case False
  have "take (Suc (length ks)) (masks[length ks := k]) = take (length ks) masks @ [k]"
    using assms(2) by (simp add: take_Suc_conv_app_nth)
  then show ?thesis using False assms(1) by (simp add: add_key_new)
qed

lemma register_masks_loop_correct:
  assumes "dense d" and "take (length d) masks = map fst d"
    and "length d + length es \<le> length masks"
  shows "\<exists>m'. register_masks_loop es d masks
           = Inr (map (\<lambda>e. e \<lparr> register_mask_index :=
                          index_of (fold add_key (map register_mask es) (map fst d))
                            (register_mask e) \<rparr>) es,
                  zip (fold add_key (map register_mask es) (map fst d))
                    [0..<length (fold add_key (map register_mask es) (map fst d))],
                  m')
         \<and> length m' = length masks
         \<and> take (length (fold add_key (map register_mask es) (map fst d))) m'
             = fold add_key (map register_mask es) (map fst d)"
  using assms
proof (induction es arbitrary: d masks)
  case Nil
  have "zip (map fst d) (map snd d) = d"
    by (rule zip_map_fst_snd)
  then have "d = zip (map fst d) [0..<length d]"
    using Nil.prems(1) by (simp add: dense_def)
  then show ?case
    using Nil.prems(2) by simp
next
  case (Cons e rest)
  let ?k = "register_mask e"
  let ?ks = "add_key ?k (map fst d)"
  let ?masks' = "masks[length d := ?k]"
  let ?K = "fold add_key (map register_mask rest) ?ks"
  have lt: "length d < length masks"
    using Cons.prems(3) by simp
  obtain d' where em: "emplace d ?k (length d) = (d', index_of ?ks ?k)"
    using emplace_dense(1) [OF Cons.prems(1), of ?k] by simp
  have keys': "map fst d' = ?ks"
    using emplace_dense(3) [OF Cons.prems(1), of ?k] em by simp
  have len': "length d' = length ?ks"
    using keys' by (metis length_map)
  have d': "dense d'"
    using emplace_dense(2) [OF Cons.prems(1), of ?k] em by simp
  have tk: "take (length d') ?masks' = map fst d'"
    using take_update_add_key [of "map fst d" masks ?k] Cons.prems(2) lt
    by (simp add: keys' len')
  have le: "length d' + length rest \<le> length ?masks'"
    using Cons.prems(3) length_add_key_le [of ?k "map fst d"] by (simp add: len')
  from Cons.IH [OF d' tk le] obtain m' where
    loop: "register_masks_loop rest d' ?masks'
             = Inr (map (\<lambda>e. e \<lparr> register_mask_index := index_of ?K (register_mask e) \<rparr>) rest,
                    zip ?K [0..<length ?K], m')"
    and lm: "length m' = length masks" and tm: "take (length ?K) m' = ?K"
    by (auto simp: keys')
  obtain ys where "?K = ?ks @ ys"
    using fold_add_key_prefix [of "map register_mask rest" ?ks] by blast
  moreover have "?k \<in> set ?ks"
    by (simp add: set_add_key)
  ultimately have idx: "index_of ?K ?k = index_of ?ks ?k"
    by (simp add: index_of_append_mem)
  show ?case
    using lt lm tm idx
    by (simp add: and_then_def Let_def em loop)
qed

lemma fold_r_append: "fold_r f (xs @ ys) b = and_then (fold_r f xs b) (fold_r f ys)"
  by (induction xs arbitrary: b) (simp_all add: and_then_def split: sum.splits)

lemma bit_store:
  "b < 8 \<Longrightarrow> m < 8 \<Longrightarrow>
   bit (if v then w OR push_bit m (1 :: 8 word) else w AND NOT (push_bit m 1)) b
     = (if b = m then v else bit w b)"
  by (auto simp: bit_or_iff bit_and_iff bit_not_iff bit_exp_iff)

lemma store_bits:
  assumes "n \<le> 8 * B" and "start + B \<le> length buf"
  shows "\<exists>buf'. fold_r (\<lambda>i b. StoreBit b start B i (f i)) [0..<n] buf = Inr buf'
           \<and> length buf' = length buf
           \<and> (\<forall>q. q < start \<or> start + B \<le> q \<longrightarrow> buf' ! q = buf ! q)
           \<and> (\<forall>k b. k < B \<and> b < 8 \<longrightarrow>
                 bit (buf' ! (start + k)) b
                   = (if 8 * k + b < n then f (8 * k + b) else bit (buf ! (start + k)) b))"
  using assms(1)
proof (induction n)
  case 0
  then show ?case by simp
next
  case (Suc n)
  then have "n \<le> 8 * B" by simp
  from Suc.IH [OF this] obtain buf1 where
    run: "fold_r (\<lambda>i b. StoreBit b start B i (f i)) [0..<n] buf = Inr buf1"
    and len: "length buf1 = length buf"
    and out: "\<forall>q. q < start \<or> start + B \<le> q \<longrightarrow> buf1 ! q = buf ! q"
    and bits: "\<forall>k b. k < B \<and> b < 8 \<longrightarrow>
                 bit (buf1 ! (start + k)) b
                   = (if 8 * k + b < n then f (8 * k + b) else bit (buf ! (start + k)) b)"
    by blast
  let ?byte = "n div 8"
  let ?new = "(if f n then buf1 ! (start + ?byte) OR push_bit (n mod 8) 1
               else buf1 ! (start + ?byte) AND NOT (push_bit (n mod 8) 1))"
  let ?buf2 = "buf1[start + ?byte := ?new]"
  have byte: "?byte < B"
    using Suc.prems by simp
  have inb: "start + ?byte < length buf1"
    using byte assms(2) len by simp
  have st: "StoreBit buf1 start B n (f n) = Inr ?buf2"
    using byte inb by (simp add: StoreBit_def Let_def)
  have run2: "fold_r (\<lambda>i b. StoreBit b start B i (f i)) [0..<Suc n] buf = Inr ?buf2"
    by (simp add: fold_r_append run st and_then_def)
  have out2: "\<forall>q. q < start \<or> start + B \<le> q \<longrightarrow> ?buf2 ! q = buf ! q"
    using out byte by auto
  have bits2: "\<forall>k b. k < B \<and> b < 8 \<longrightarrow>
                 bit (?buf2 ! (start + k)) b
                   = (if 8 * k + b < Suc n then f (8 * k + b) else bit (buf ! (start + k)) b)"
  proof (intro allI impI)
    fix k b :: nat
    assume kb: "k < B \<and> b < 8"
    show "bit (?buf2 ! (start + k)) b
            = (if 8 * k + b < Suc n then f (8 * k + b) else bit (buf ! (start + k)) b)"
    proof (cases "k = ?byte")
      case True
      have new: "?buf2 ! (start + k) = ?new"
        using True inb by simp
      have nb: "bit (?buf2 ! (start + k)) b
                  = (if b = n mod 8 then f n else bit (buf1 ! (start + ?byte)) b)"
        unfolding new by (rule bit_store) (use kb in simp_all)
      have old: "bit (buf1 ! (start + ?byte)) b
                   = (if 8 * ?byte + b < n then f (8 * ?byte + b) else bit (buf ! (start + ?byte)) b)"
        using bits kb True by simp
      have split: "8 * ?byte + n mod 8 = n"
        by simp
      show ?thesis
      proof (cases "b = n mod 8")
        case b: True
        then show ?thesis
          unfolding nb using True split by simp
      next
        case b: False
        then have "8 * ?byte + b \<noteq> n"
          using split kb by (metis mod_mult_self4 mod_less)
        then have "(8 * ?byte + b < Suc n) = (8 * ?byte + b < n)"
          by linarith
        then show ?thesis
          unfolding nb using True b old by simp
      qed
    next
      case False
      then have "?buf2 ! (start + k) = buf1 ! (start + k)"
        by simp
      moreover have "8 * k + b \<noteq> n"
        using False kb by (metis div_mult_self4 div_less add.right_neutral zero_neq_numeral)
      then have "(8 * k + b < Suc n) = (8 * k + b < n)"
        by linarith
      ultimately show ?thesis
        using bits kb by simp
    qed
  qed
  show ?case
    using run2 len out2 bits2 by simp
qed

lemma length_slots: "length (slots buf B n) = n"
  by (simp add: slots_def)

lemma length_slot_table: "length (slot_table B n) = n"
  by (simp add: slot_table_def)

lemma slice_nth: "start + n \<le> length xs \<Longrightarrow> k < n \<Longrightarrow> slice xs start n ! k = xs ! (start + k)"
  by (simp add: slice_def)

lemma length_slice: "start + n \<le> length xs \<Longrightarrow> length (slice xs start n) = n"
  by (simp add: slice_def)

lemma slice_cong:
  assumes "length xs = length ys" and "\<forall>k<n. xs ! (start + k) = ys ! (start + k)"
  shows "slice xs start n = slice ys start n"
proof (rule nth_equalityI)
  show "length (slice xs start n) = length (slice ys start n)"
    using assms(1) by (simp add: slice_def)
next
  fix i
  assume "i < length (slice xs start n)"
  then have "i < n" and "start + i < length xs"
    by (auto simp: slice_def)
  then show "slice xs start n ! i = slice ys start n ! i"
    using assms by (simp add: slice_def)
qed

lemma bytes_bound: "bits \<le> 8 * (RoundUp bits kBitsPerByte div kBitsPerByte)"
  by (simp add: RoundUp_def kBitsPerByte_def)

lemma slot_packed:
  assumes B: "B = RoundUp bits kBitsPerByte div kBitsPerByte"
    and len: "start + B \<le> length buf"
    and bits: "\<forall>k b. k < B \<and> b < 8 \<longrightarrow>
                 bit (buf ! (start + k)) b = (8 * k + b < bits \<and> mask_bit m (8 * k + b))"
  shows "slice buf start B = packed_stack_mask bits m"
proof (rule nth_equalityI)
  show "length (slice buf start B) = length (packed_stack_mask bits m)"
    using len by (simp add: length_slice packed_stack_mask_def B)
next
  fix k
  assume "k < length (slice buf start B)"
  then have k: "k < B"
    using len by (simp add: length_slice)
  have "buf ! (start + k)
          = horner_sum of_bool 2 (map (\<lambda>b. 8 * k + b < bits \<and> mask_bit m (8 * k + b)) [0..<8])"
  proof (rule bit_word_eqI)
    fix b
    assume "b < LENGTH(8)"
    then have b: "b < 8" by simp
    then show "bit (buf ! (start + k)) b
                 = bit (horner_sum of_bool (2 :: 8 word)
                         (map (\<lambda>b. 8 * k + b < bits \<and> mask_bit m (8 * k + b)) [0..<8])) b"
      using bits k by (simp add: bit_horner_sum_bit_word_iff)
  qed
  then show "slice buf start B ! k = packed_stack_mask bits m ! k"
    using k len by (simp add: slice_nth packed_stack_mask_def B [symmetric])
qed

lemma index_of_first: "j < index_of xs x \<Longrightarrow> xs ! j \<noteq> x"
proof (induction xs arbitrary: j)
  case Nil
  then show ?case by (simp add: index_of_def)
next
  case (Cons y ys)
  then show ?case
    by (cases j) (auto simp: index_of_def split: if_splits)
qed

lemma slots_Suc: "slots buf B (Suc n) = slots buf B n @ [slice buf (n * B) B]"
  by (simp add: slots_def)

lemma slot_table_Suc: "slot_table B (Suc n) = slot_table B n @ [(n * B, n)]"
  by (simp add: slot_table_def)

lemma find_append:
  "find P (xs @ ys) = (case find P xs of None \<Rightarrow> find P ys | Some x \<Rightarrow> Some x)"
  by (induction xs) simp_all

lemma find_slot_table:
  "find (\<lambda>(k, v'). slice buf k B = c) (slot_table B n)
     = (if c \<in> set (slots buf B n)
        then Some (index_of (slots buf B n) c * B, index_of (slots buf B n) c)
        else None)"
proof (induction n)
  case 0
  then show ?case by (simp add: slots_def slot_table_def)
next
  case (Suc n)
  show ?case
  proof (cases "c \<in> set (slots buf B n)")
    case True
    then show ?thesis
      using Suc by (simp add: slots_Suc slot_table_Suc find_append index_of_append_mem)
  next
    case False
    show ?thesis
    proof (cases "c = slice buf (n * B) B")
      case True
      then have "index_of (slots buf B n @ [c]) c = n"
        using False index_of_snoc_new [of c "slots buf B n"] by (simp add: length_slots)
      then show ?thesis
        using Suc False True by (simp add: slots_Suc slot_table_Suc find_append)
    next
      case ne: False
      then show ?thesis
        using Suc False by (auto simp: slots_Suc slot_table_Suc find_append)
    qed
  qed
qed

lemma emplace_region_slots:
  assumes "slots buf B n = ks" and "slice buf (n * B) B = c"
  shows "emplace_region buf B (slot_table B n) (n * B) n
           = (slot_table B (length (add_key c ks)), index_of (add_key c ks) c)"
    and "slots buf B (length (add_key c ks)) = add_key c ks"
proof -
  have n: "length ks = n"
    using assms(1) length_slots [of buf B n] by simp
  show "emplace_region buf B (slot_table B n) (n * B) n
           = (slot_table B (length (add_key c ks)), index_of (add_key c ks) c)"
  proof (cases "c \<in> set ks")
    case True
    then show ?thesis
      using assms n
      by (simp add: emplace_region_def find_slot_table add_key_mem)
  next
    case False
    then show ?thesis
      using assms n
      by (simp add: emplace_region_def find_slot_table add_key_new slot_table_Suc
          index_of_snoc_new)
  qed
  show "slots buf B (length (add_key c ks)) = add_key c ks"
  proof (cases "c \<in> set ks")
    case True
    then show ?thesis using assms n by (simp add: add_key_mem)
  next
    case False
    then show ?thesis using assms n by (simp add: add_key_new slots_Suc)
  qed
qed

lemma slot_position:
  fixes j n B k k' :: nat
  assumes "k < B" and "k' < B" and "j \<noteq> n"
  shows "j * B + k \<noteq> n * B + k'"
proof
  assume eq: "j * B + k = n * B + k'"
  have "(j * B + k) div B = j" and "(n * B + k') div B = n"
    using assms by simp_all
  with eq assms(3) show False by simp
qed

lemma slot_outside:
  fixes j n B k :: nat
  assumes "k < B" and "j \<noteq> n"
  shows "j * B + k < n * B \<or> n * B + B \<le> j * B + k"
proof (cases "j < n")
  case True
  then have "Suc j \<le> n" by simp
  then have "Suc j * B \<le> n * B" by (rule mult_le_mono1)
  then show ?thesis using assms(1) by simp
next
  case False
  with assms(2) have "Suc n \<le> j" by simp
  then have "Suc n * B \<le> j * B" by (rule mult_le_mono1)
  then show ?thesis by simp
qed

lemma stack_masks_loop_correct:
  assumes B: "B = RoundUp bits kBitsPerByte div kBitsPerByte"
    and len: "length buf = B * cap"
    and room: "n + length es \<le> cap"
    and ks: "slots buf B n = ks"
    and pad: "padding_clear bits B cap buf"
  shows "\<exists>buf'. stack_masks_loop bits B es (slot_table B n) buf
           = Inr (map (\<lambda>e. e \<lparr> stack_mask_index :=
                          index_of
                            (fold add_key (map (\<lambda>e. packed_stack_mask bits (sp_mask e)) es) ks)
                            (packed_stack_mask bits (sp_mask e)) \<rparr>) es,
                  slot_table B
                    (length (fold add_key (map (\<lambda>e. packed_stack_mask bits (sp_mask e)) es) ks)),
                  buf')
         \<and> length buf' = length buf
         \<and> slots buf' B
              (length (fold add_key (map (\<lambda>e. packed_stack_mask bits (sp_mask e)) es) ks))
             = fold add_key (map (\<lambda>e. packed_stack_mask bits (sp_mask e)) es) ks"
  using len room ks pad
proof (induction es arbitrary: n buf ks)
  case Nil
  have "length ks = n"
    using Nil.prems(3) length_slots [of buf B n] by simp
  then show ?case
    using Nil.prems(3) by simp
next
  case (Cons e rest)
  let ?start = "n * B"
  let ?c = "packed_stack_mask bits (sp_mask e)"
  let ?ks' = "add_key ?c ks"
  let ?K = "fold add_key (map (\<lambda>e. packed_stack_mask bits (sp_mask e)) rest) ?ks'"
  have n: "n < cap" and nk: "length ks = n"
    using Cons.prems(2,3) length_slots [of buf B n] by simp_all
  have "Suc n * B \<le> cap * B"
    using n by (intro mult_le_mono1) simp
  then have inb: "?start + B \<le> length buf"
    using Cons.prems(1) by (simp add: mult.commute)
  have bound: "bits \<le> 8 * B"
    using bytes_bound [of bits] B by simp
  from store_bits [OF bound inb, of "\<lambda>i. mask_bit (sp_mask e) i"] obtain buf1 where
    run: "fold_r (\<lambda>i b. StoreBit b ?start B i (mask_bit (sp_mask e) i)) [0..<bits] buf = Inr buf1"
    and len1: "length buf1 = length buf"
    and out: "\<forall>q. q < ?start \<or> ?start + B \<le> q \<longrightarrow> buf1 ! q = buf ! q"
    and reg: "\<forall>k b. k < B \<and> b < 8 \<longrightarrow>
                bit (buf1 ! (?start + k)) b
                  = (if 8 * k + b < bits then mask_bit (sp_mask e) (8 * k + b)
                     else bit (buf ! (?start + k)) b)"
    by blast
  have reg': "\<forall>k b. k < B \<and> b < 8 \<longrightarrow>
                bit (buf1 ! (?start + k)) b
                  = (8 * k + b < bits \<and> mask_bit (sp_mask e) (8 * k + b))"
  proof (intro allI impI)
    fix k b :: nat
    assume kb: "k < B \<and> b < 8"
    have "bits \<le> 8 * k + b \<Longrightarrow> \<not> bit (buf ! (?start + k)) b"
      using Cons.prems(4) n kb unfolding padding_clear_def by blast
    then show "bit (buf1 ! (?start + k)) b
                 = (8 * k + b < bits \<and> mask_bit (sp_mask e) (8 * k + b))"
      using reg kb by (auto simp: not_less)
  qed
  have content: "slice buf1 ?start B = ?c"
    using slot_packed [OF B _ reg'] inb len1 by simp
  have same: "slots buf1 B n = ks"
  proof -
    have "\<forall>j<n. slice buf1 (j * B) B = slice buf (j * B) B"
    proof (intro allI impI)
      fix j
      assume j: "j < n"
      show "slice buf1 (j * B) B = slice buf (j * B) B"
      proof (rule slice_cong [OF len1], intro allI impI)
        fix k
        assume "k < B"
        then have "j * B + k < ?start \<or> ?start + B \<le> j * B + k"
          using j by (intro slot_outside) simp_all
        then show "buf1 ! (j * B + k) = buf ! (j * B + k)"
          using out by blast
      qed
    qed
    then have "slots buf1 B n = slots buf B n"
      by (simp add: slots_def)
    then show ?thesis
      using Cons.prems(3) by simp
  qed
  have pad1: "padding_clear bits B cap buf1"
    unfolding padding_clear_def
  proof (intro allI impI)
    fix j k b :: nat
    assume a: "j < cap \<and> k < B \<and> b < 8 \<and> bits \<le> 8 * k + b"
    show "\<not> bit (buf1 ! (j * B + k)) b"
    proof (cases "j = n")
      case True
      then show ?thesis using reg' a by simp
    next
      case False
      then have "j * B + k < ?start \<or> ?start + B \<le> j * B + k"
        using a by (intro slot_outside) simp_all
      then have "buf1 ! (j * B + k) = buf ! (j * B + k)"
        using out by blast
      then show ?thesis
        using Cons.prems(4) a unfolding padding_clear_def by simp
    qed
  qed
  have em: "emplace_region buf1 B (slot_table B n) ?start n
              = (slot_table B (length ?ks'), index_of ?ks' ?c)"
    by (rule emplace_region_slots(1) [OF same content])
  have slots': "slots buf1 B (length ?ks') = ?ks'"
    by (rule emplace_region_slots(2) [OF same content])
  have len1': "length buf1 = B * cap"
    using len1 Cons.prems(1) by simp
  have room': "length ?ks' + length rest \<le> cap"
    using Cons.prems(2) nk length_add_key_le [of ?c ks] by simp
  from Cons.IH [OF len1' room' slots' pad1] obtain buf' where
    loop: "stack_masks_loop bits B rest (slot_table B (length ?ks')) buf1
             = Inr (map (\<lambda>e. e \<lparr> stack_mask_index :=
                            index_of ?K (packed_stack_mask bits (sp_mask e)) \<rparr>) rest,
                    slot_table B (length ?K), buf')"
    and lb: "length buf' = length buf1" and sl: "slots buf' B (length ?K) = ?K"
    by blast
  obtain ys where "?K = ?ks' @ ys"
    using fold_add_key_prefix [of "map (\<lambda>e. packed_stack_mask bits (sp_mask e)) rest" ?ks']
    by blast
  moreover have "?c \<in> set ?ks'"
    by (simp add: set_add_key)
  ultimately have idx: "index_of ?K ?c = index_of ?ks' ?c"
    by (simp add: index_of_append_mem)
  show ?case
    using lb len1 sl idx
    by (simp add: and_then_def Let_def length_slot_table run em loop)
qed

lemma PrepareRegisterMasks_correct:
  "\<exists>s'. PrepareRegisterMasks s
          = Inr (length (first_occurrences (map register_mask (stack_maps s))), s')
       \<and> stack_maps s'
           = map (\<lambda>e. e \<lparr> register_mask_index :=
                         index_of (first_occurrences (map register_mask (stack_maps s)))
                           (register_mask e) \<rparr>) (stack_maps s)
       \<and> take (length (first_occurrences (map register_mask (stack_maps s)))) (register_masks s')
           = first_occurrences (map register_mask (stack_maps s))"
proof -
  let ?masks = "resize (register_masks s) (length (stack_maps s)) 0"
  let ?d = "[] :: (32 word \<times> nat) list"
  have d: "dense ?d"
    by (simp add: dense_def)
  have tk: "take (length ?d) ?masks = map fst ?d"
    by simp
  have le: "length ?d + length (stack_maps s) \<le> length ?masks"
    by (simp add: length_resize)
  from register_masks_loop_correct [OF d tk le]
  show ?thesis
    by (auto simp: PrepareRegisterMasks_def and_then_def first_occurrences_def)
qed

lemma PrepareStackMasks_correct:
  assumes "stack_masks s = []"
  shows "\<exists>s'. PrepareStackMasks bits s
          = Inr (length (first_occurrences
                          (map (\<lambda>e. packed_stack_mask bits (sp_mask e)) (stack_maps s))), s')
       \<and> stack_maps s'
           = map (\<lambda>e. e \<lparr> stack_mask_index :=
                         index_of (first_occurrences
                                    (map (\<lambda>e. packed_stack_mask bits (sp_mask e)) (stack_maps s)))
                           (packed_stack_mask bits (sp_mask e)) \<rparr>) (stack_maps s)
       \<and> slots (stack_masks s') (RoundUp bits kBitsPerByte div kBitsPerByte)
            (length (first_occurrences
                      (map (\<lambda>e. packed_stack_mask bits (sp_mask e)) (stack_maps s))))
           = first_occurrences (map (\<lambda>e. packed_stack_mask bits (sp_mask e)) (stack_maps s))"
proof -
  let ?B = "RoundUp bits kBitsPerByte div kBitsPerByte"
  let ?buf = "resize (stack_masks s) (?B * length (stack_maps s)) 0"
  have buf: "?buf = replicate (?B * length (stack_maps s)) 0"
    using assms by (simp add: resize_def)
  have len: "length ?buf = ?B * length (stack_maps s)"
    by (simp add: length_resize)
  have room: "0 + length (stack_maps s) \<le> length (stack_maps s)"
    by simp
  have ks: "slots ?buf ?B 0 = []"
    by (simp add: slots_def)
  have pad: "padding_clear bits ?B (length (stack_maps s)) ?buf"
    unfolding padding_clear_def buf
  proof (intro allI impI)
    fix j k b :: nat
    assume a: "j < length (stack_maps s) \<and> k < ?B \<and> b < 8 \<and> bits \<le> 8 * k + b"
    then have "Suc j * ?B \<le> length (stack_maps s) * ?B"
      by (intro mult_le_mono1) simp
    then have "j * ?B + k < ?B * length (stack_maps s)"
      using a by (simp add: mult.commute)
    then show "\<not> bit (replicate (?B * length (stack_maps s)) (0 :: 8 word) ! (j * ?B + k)) b"
      by simp
  qed
  from stack_masks_loop_correct [OF refl len room ks pad]
  show ?thesis
    by (auto simp: PrepareStackMasks_def Let_def and_then_def first_occurrences_def
        slot_table_def)
qed

lemma slots_nth:
  "j < n \<Longrightarrow> slots buf B n ! j = slice buf (j * B) B"
  by (simp add: slots_def)

text \<open>
  The streaming calls never touch the stack-mask buffer, so it is still empty when
  \<^verbatim>\<open>PrepareForFillIn\<close> calls \<^verbatim>\<open>PrepareStackMasks\<close>.
\<close>

lemma step_stack_masks: "step x s = Inr s' \<Longrightarrow> stack_masks s' = stack_masks s"
proof (cases x)
  case (OpBeginStackMapEntry pc npc rm sp n d)
  assume "step x s = Inr s'"
  then show ?thesis
    using OpBeginStackMapEntry by (auto simp: BeginStackMapEntry_def split: if_splits)
next
  case (OpAddDexRegisterEntry k v)
  assume "step x s = Inr s'"
  then show ?thesis
    using OpAddDexRegisterEntry
    by (auto simp: AddDexRegisterEntry_def intern_location_def Let_def
        split: if_splits option.splits)
next
  case (OpBeginInlineInfoEntry enc m pc n f)
  assume "step x s = Inr s'"
  then show ?thesis
    using OpBeginInlineInfoEntry by (auto simp: BeginInlineInfoEntry_def split: if_splits)
next
  case OpEndInlineInfoEntry
  assume "step x s = Inr s'"
  then show ?thesis
    using OpEndInlineInfoEntry by (auto simp: EndInlineInfoEntry_def split: if_splits)
next
  case OpEndStackMapEntry
  assume "step x s = Inr s'"
  then show ?thesis
    using OpEndStackMapEntry
    by (auto simp: EndStackMapEntry_def FindEntryWithTheSameDexMap_def and_then_def Let_def
        split: if_splits option.splits sum.splits)
qed

lemma run_stack_masks: "run ops s = Inr s' \<Longrightarrow> stack_masks s' = stack_masks s"
proof (induction ops arbitrary: s)
  case Nil
  then show ?case by simp
next
  case (Cons x ops)
  then show ?case
    by (auto simp: and_then_def split: sum.splits dest: step_stack_masks)
qed

lemma streaming_leaves_stack_masks_empty:
  "run ops (StackMapStream_init isa) = Inr s \<Longrightarrow> stack_masks s = []"
  using run_stack_masks [of ops "StackMapStream_init isa" s]
  by (simp add: StackMapStream_init_def)

text \<open>What the two interners change: the entries and their own table.\<close>

lemma PrepareStackMasks_frame:
  assumes "PrepareStackMasks bits s = Inr (n, s1)"
  shows "\<exists>es buf. s1 = s \<lparr> stack_maps := es, stack_masks := buf \<rparr>"
  using assms
  by (auto simp: PrepareStackMasks_def Let_def and_then_def split: sum.splits)

lemma PrepareRegisterMasks_frame:
  assumes "PrepareRegisterMasks s = Inr (n, s1)"
  shows "\<exists>es masks. s1 = s \<lparr> stack_maps := es, register_masks := masks \<rparr>"
  using assms
  by (auto simp: PrepareRegisterMasks_def and_then_def split: sum.splits)

lemma stack_masks_before_stack_maps:
  "s \<lparr> stack_masks := b, stack_maps := m \<rparr> = s \<lparr> stack_maps := m, stack_masks := b \<rparr>"
  by (cases s) simp

text \<open>
  C5. \<^verbatim>\<open>PrepareRegisterMasks\<close> and \<^verbatim>\<open>PrepareStackMasks\<close> each number the distinct keys (the
  32-bit register mask, respectively the byte-packed stack mask) densely in the order of
  their first occurrence: each returns the number of distinct keys, each entry gets the
  position of its key among the first occurrences, nothing else in an entry or in the
  stream changes but the function's own table, and the table slot an entry's index names
  holds that entry's register mask, respectively its byte-packed stack mask.

  For \<^verbatim>\<open>PrepareRegisterMasks\<close> this holds in every state. For \<^verbatim>\<open>PrepareStackMasks\<close> the
  stack-mask buffer is empty before the call, as it is after every sequence of
  streaming calls (\<open>streaming_leaves_stack_masks_empty\<close>); then the two calls in the
  order of \<^verbatim>\<open>PrepareForFillIn\<close>, \<^verbatim>\<open>PrepareStackMasks\<close> first and \<^verbatim>\<open>PrepareRegisterMasks\<close> on
  the state it leaves, give a state in which every entry carries both indices and both
  tables resolve them.
\<close>

theorem Prepare_masks_dense_first_occurrence:
  "(\<exists>masks. PrepareRegisterMasks s
       = Inr (length (first_occurrences (map register_mask (stack_maps s))),
              s \<lparr> stack_maps :=
                    map (\<lambda>e. e \<lparr> register_mask_index :=
                                  index_of (first_occurrences (map register_mask (stack_maps s)))
                                    (register_mask e) \<rparr>) (stack_maps s),
                  register_masks := masks \<rparr>)
     \<and> length (first_occurrences (map register_mask (stack_maps s)))
         = card (register_mask ` set (stack_maps s))
     \<and> (\<forall>e \<in> set (stack_maps s).
           masks ! index_of (first_occurrences (map register_mask (stack_maps s)))
                     (register_mask e) = register_mask e))
   \<and> (stack_masks s = [] \<longrightarrow>
       (\<exists>buf masks.
          PrepareStackMasks bits s
            = Inr (length (first_occurrences
                            (map (\<lambda>e. packed_stack_mask bits (sp_mask e)) (stack_maps s))),
                   s \<lparr> stack_maps :=
                         map (\<lambda>e. e \<lparr> stack_mask_index :=
                                       index_of (first_occurrences
                                                  (map (\<lambda>e. packed_stack_mask bits (sp_mask e))
                                                     (stack_maps s)))
                                         (packed_stack_mask bits (sp_mask e)) \<rparr>) (stack_maps s),
                       stack_masks := buf \<rparr>)
        \<and> length (first_occurrences
                     (map (\<lambda>e. packed_stack_mask bits (sp_mask e)) (stack_maps s)))
            = card ((\<lambda>e. packed_stack_mask bits (sp_mask e)) ` set (stack_maps s))
        \<and> (\<forall>e \<in> set (stack_maps s).
              slice buf
                (index_of (first_occurrences
                            (map (\<lambda>e. packed_stack_mask bits (sp_mask e)) (stack_maps s)))
                   (packed_stack_mask bits (sp_mask e))
                 * (RoundUp bits kBitsPerByte div kBitsPerByte))
                (RoundUp bits kBitsPerByte div kBitsPerByte)
                = packed_stack_mask bits (sp_mask e))
        \<and> PrepareRegisterMasks
              (s \<lparr> stack_maps :=
                     map (\<lambda>e. e \<lparr> stack_mask_index :=
                                   index_of (first_occurrences
                                              (map (\<lambda>e. packed_stack_mask bits (sp_mask e))
                                                 (stack_maps s)))
                                     (packed_stack_mask bits (sp_mask e)) \<rparr>) (stack_maps s),
                   stack_masks := buf \<rparr>)
            = Inr (length (first_occurrences (map register_mask (stack_maps s))),
                   s \<lparr> stack_maps :=
                         map (\<lambda>e. e \<lparr> stack_mask_index :=
                                       index_of (first_occurrences
                                                  (map (\<lambda>e. packed_stack_mask bits (sp_mask e))
                                                     (stack_maps s)))
                                         (packed_stack_mask bits (sp_mask e)),
                                     register_mask_index :=
                                       index_of (first_occurrences
                                                  (map register_mask (stack_maps s)))
                                         (register_mask e) \<rparr>) (stack_maps s),
                       stack_masks := buf, register_masks := masks \<rparr>)
        \<and> (\<forall>e \<in> set (stack_maps s).
              masks ! index_of (first_occurrences (map register_mask (stack_maps s)))
                        (register_mask e) = register_mask e)))"
  (is "?R \<and> (_ \<longrightarrow> ?S)")
proof (intro conjI impI)
  have reg: "\<exists>masks. PrepareRegisterMasks t
       = Inr (length (first_occurrences (map register_mask (stack_maps t))),
              t \<lparr> stack_maps :=
                    map (\<lambda>e. e \<lparr> register_mask_index :=
                                  index_of (first_occurrences (map register_mask (stack_maps t)))
                                    (register_mask e) \<rparr>) (stack_maps t),
                  register_masks := masks \<rparr>)
     \<and> (\<forall>e \<in> set (stack_maps t).
           masks ! index_of (first_occurrences (map register_mask (stack_maps t)))
                     (register_mask e) = register_mask e)" for t
  proof -
    let ?F = "first_occurrences (map register_mask (stack_maps t))"
    from PrepareRegisterMasks_correct [of t] obtain t' where
      run: "PrepareRegisterMasks t = Inr (length ?F, t')"
      and maps: "stack_maps t'
                 = map (\<lambda>e. e \<lparr> register_mask_index := index_of ?F (register_mask e) \<rparr>)
                     (stack_maps t)"
      and table: "take (length ?F) (register_masks t') = ?F"
      by blast
    from PrepareRegisterMasks_frame [OF run] obtain es masks where
      t': "t' = t \<lparr> stack_maps := es, register_masks := masks \<rparr>"
      by blast
    have es: "es = map (\<lambda>e. e \<lparr> register_mask_index := index_of ?F (register_mask e) \<rparr>)
                     (stack_maps t)"
      using maps t' by simp
    have look: "masks ! index_of ?F (register_mask e) = register_mask e"
      if e: "e \<in> set (stack_maps t)" for e
    proof -
      have mem: "register_mask e \<in> set ?F"
        using e by (simp add: set_first_occurrences)
      have "masks ! index_of ?F (register_mask e)
            = take (length ?F) (register_masks t') ! index_of ?F (register_mask e)"
        using index_of_less [OF mem] t' by simp
      also have "\<dots> = register_mask e"
        unfolding table by (rule index_of_nth [OF mem])
      finally show ?thesis .
    qed
    show ?thesis
      using run look unfolding t' es by blast
  qed
  from reg [of s] show ?R
    by (simp add: length_first_occurrences)
  assume empty: "stack_masks s = []"
  let ?B = "RoundUp bits kBitsPerByte div kBitsPerByte"
  let ?key = "\<lambda>e. packed_stack_mask bits (sp_mask e)"
  let ?F = "first_occurrences (map ?key (stack_maps s))"
  let ?es = "map (\<lambda>e. e \<lparr> stack_mask_index := index_of ?F (?key e) \<rparr>) (stack_maps s)"
  from PrepareStackMasks_correct [OF empty, of bits] obtain s1 where
    run: "PrepareStackMasks bits s = Inr (length ?F, s1)"
    and maps: "stack_maps s1 = ?es"
    and table: "slots (stack_masks s1) ?B (length ?F) = ?F"
    by blast
  from PrepareStackMasks_frame [OF run] obtain es buf where
    s1: "s1 = s \<lparr> stack_maps := es, stack_masks := buf \<rparr>"
    by blast
  have es: "es = ?es"
    using maps s1 by simp
  have look: "slice buf (index_of ?F (?key e) * ?B) ?B = ?key e"
    if e: "e \<in> set (stack_maps s)" for e
  proof -
    have mem: "?key e \<in> set ?F"
      using e by (simp add: set_first_occurrences)
    have "slice buf (index_of ?F (?key e) * ?B) ?B
            = slots (stack_masks s1) ?B (length ?F) ! index_of ?F (?key e)"
      using index_of_less [OF mem] s1 by (simp add: slots_nth)
    also have "\<dots> = ?key e"
      unfolding table by (rule index_of_nth [OF mem])
    finally show ?thesis .
  qed
  have keys: "map register_mask ?es = map register_mask (stack_maps s)"
    by (simp add: comp_def)
  have "\<exists>masks. PrepareRegisterMasks (s \<lparr> stack_maps := ?es, stack_masks := buf \<rparr>)
       = Inr (length (first_occurrences (map register_mask (stack_maps s))),
              s \<lparr> stack_maps :=
                    map (\<lambda>e. e \<lparr> stack_mask_index := index_of ?F (?key e),
                                register_mask_index :=
                                  index_of (first_occurrences (map register_mask (stack_maps s)))
                                    (register_mask e) \<rparr>) (stack_maps s),
                  stack_masks := buf, register_masks := masks \<rparr>)
     \<and> (\<forall>e \<in> set (stack_maps s).
           masks ! index_of (first_occurrences (map register_mask (stack_maps s)))
                     (register_mask e) = register_mask e)"
    using reg [of "s \<lparr> stack_maps := ?es, stack_masks := buf \<rparr>"]
    by (simp add: keys comp_def stack_masks_before_stack_maps)
  then obtain masks where
    run2: "PrepareRegisterMasks (s \<lparr> stack_maps := ?es, stack_masks := buf \<rparr>)
       = Inr (length (first_occurrences (map register_mask (stack_maps s))),
              s \<lparr> stack_maps :=
                    map (\<lambda>e. e \<lparr> stack_mask_index := index_of ?F (?key e),
                                register_mask_index :=
                                  index_of (first_occurrences (map register_mask (stack_maps s)))
                                    (register_mask e) \<rparr>) (stack_maps s),
                  stack_masks := buf, register_masks := masks \<rparr>)"
    and look2: "\<forall>e \<in> set (stack_maps s).
           masks ! index_of (first_occurrences (map register_mask (stack_maps s)))
                     (register_mask e) = register_mask e"
    by blast
  show ?S
    apply (rule exI [of _ buf])
    apply (rule exI [of _ masks])
    using run look run2 look2 unfolding s1 es
    apply (simp add: length_first_occurrences)
    done
qed

lemma upt_8: "[0..<8] = [0, 1, 2, 3, 4, 5, 6, 7]"
  by code_simp

lemma example_packed:
  "packed_stack_mask 2 (Some [False, True]) = [2]"
  "packed_stack_mask 2 None = [0]"
  "packed_stack_mask 2 (Some [True]) = [1]"
  by (simp_all add: packed_stack_mask_def RoundUp_def kBitsPerByte_def upt_8 mask_bit_def
      IsBitSet_def)

theorem Prepare_masks_dense_first_occurrence_witness:
  "stack_masks example_stream = []
   \<and> (\<exists>s'. PrepareRegisterMasks example_stream = Inr (2, s')
          \<and> map register_mask_index (stack_maps s') = [0, 0, 1])
   \<and> (\<exists>s1 s2. PrepareStackMasks 2 example_stream = Inr (3, s1)
          \<and> map stack_mask_index (stack_maps s1) = [0, 1, 2]
          \<and> PrepareRegisterMasks s1 = Inr (2, s2)
          \<and> map stack_mask_index (stack_maps s2) = [0, 1, 2]
          \<and> map register_mask_index (stack_maps s2) = [0, 0, 1]
          \<and> stack_masks s2 = stack_masks s1)"
proof -
  have h: "stack_masks example_stream = []"
    by (simp add: example_stream_def)
  have r: "first_occurrences (map register_mask (stack_maps example_stream)) = [3, 1]"
    by (simp add: example_stream_def first_occurrences_def add_key_def)
  have m: "first_occurrences
             (map (\<lambda>e. packed_stack_mask 2 (sp_mask e)) (stack_maps example_stream))
             = [[2], [0], [1]]"
    by (simp add: example_stream_def first_occurrences_def add_key_def example_packed)
  have es: "stack_maps example_stream \<noteq> [] \<and> length (stack_maps example_stream) = 3
      \<and> map register_mask (stack_maps example_stream) = [3, 3, 1]
      \<and> map (\<lambda>e. packed_stack_mask 2 (sp_mask e)) (stack_maps example_stream)
          = [[2], [0], [1]]"
    by (simp add: example_stream_def example_packed)
  from Prepare_masks_dense_first_occurrence [of example_stream 2] h
  obtain masks0 buf masks s1 s2 where
    "PrepareRegisterMasks example_stream
       = Inr (length (first_occurrences (map register_mask (stack_maps example_stream))),
              example_stream \<lparr> stack_maps :=
                    map (\<lambda>e. e \<lparr> register_mask_index :=
                                  index_of (first_occurrences
                                             (map register_mask (stack_maps example_stream)))
                                    (register_mask e) \<rparr>) (stack_maps example_stream),
                  register_masks := masks0 \<rparr>)"
    "s1 = example_stream \<lparr> stack_maps :=
                         map (\<lambda>e. e \<lparr> stack_mask_index :=
                                       index_of (first_occurrences
                                                  (map (\<lambda>e. packed_stack_mask 2 (sp_mask e))
                                                     (stack_maps example_stream)))
                                         (packed_stack_mask 2 (sp_mask e)) \<rparr>)
                           (stack_maps example_stream),
                       stack_masks := buf \<rparr>"
    "PrepareStackMasks 2 example_stream
            = Inr (length (first_occurrences
                            (map (\<lambda>e. packed_stack_mask 2 (sp_mask e))
                               (stack_maps example_stream))), s1)"
    "s2 = example_stream \<lparr> stack_maps :=
                         map (\<lambda>e. e \<lparr> stack_mask_index :=
                                       index_of (first_occurrences
                                                  (map (\<lambda>e. packed_stack_mask 2 (sp_mask e))
                                                     (stack_maps example_stream)))
                                         (packed_stack_mask 2 (sp_mask e)),
                                     register_mask_index :=
                                       index_of (first_occurrences
                                                  (map register_mask (stack_maps example_stream)))
                                         (register_mask e) \<rparr>) (stack_maps example_stream),
                       stack_masks := buf, register_masks := masks \<rparr>"
    "PrepareRegisterMasks s1
            = Inr (length (first_occurrences (map register_mask (stack_maps example_stream))),
                   s2)"
    by blast
  then have "PrepareRegisterMasks example_stream
       = Inr (2, example_stream \<lparr> stack_maps :=
                    map (\<lambda>e. e \<lparr> register_mask_index := index_of [3, 1] (register_mask e) \<rparr>)
                      (stack_maps example_stream),
                  register_masks := masks0 \<rparr>)"
    and "PrepareStackMasks 2 example_stream = Inr (3, s1)"
    and "PrepareRegisterMasks s1 = Inr (2, s2)"
    and "map stack_mask_index (stack_maps s1) = [0, 1, 2]"
    and "map stack_mask_index (stack_maps s2) = [0, 1, 2]"
    and "map register_mask_index (stack_maps s2) = [0, 0, 1]"
    and "stack_masks s2 = stack_masks s1"
    unfolding r m
    by (simp_all add: example_stream_def index_of_def example_packed)
  moreover have "map register_mask_index
       (stack_maps (example_stream \<lparr> stack_maps :=
                    map (\<lambda>e. e \<lparr> register_mask_index := index_of [3, 1] (register_mask e) \<rparr>)
                      (stack_maps example_stream),
                  register_masks := masks0 \<rparr>)) = [0, 0, 1]"
    by (simp add: example_stream_def index_of_def)
  ultimately show ?thesis
    using h by (intro conjI exI) assumption+
qed

section \<open>Properties of the dex-map similarity index\<close>

lemma slice_append_stable:
  "start + n \<le> length xs \<Longrightarrow> slice (xs @ ys) start n = slice xs start n"
  by (simp add: slice_def)

lemma wf_entry_append: "wf_entry locs e \<Longrightarrow> wf_entry (locs @ xs) e"
  by (simp add: wf_entry_def)

lemma HaveTheSameDexMaps_wf:
  assumes "wf_entry (dex_register_locations s) a" and "wf_entry (dex_register_locations s) b"
  shows "HaveTheSameDexMaps s a b = Inr (same_dex_maps (dex_register_locations s) a b)"
proof (cases "live_dex_registers_mask a")
  case None
  then show ?thesis
    using assms
    by (cases "live_dex_registers_mask b")
       (auto simp: HaveTheSameDexMaps_def same_dex_maps_def dex_map_slice_def wf_entry_def
          wf_mask_def NumSetBits_opt_def slice_def)
next
  case (Some ma)
  show ?thesis
  proof (cases "live_dex_registers_mask b")
    case None
    then show ?thesis
      using Some by (simp add: HaveTheSameDexMaps_def same_dex_maps_def)
  next
    case b: (Some mb)
    have na: "num_dex_registers a \<noteq> 0"
      using assms(1) Some by (simp add: wf_entry_def wf_mask_def)
    have ra: "dex_register_locations_start_index a + NumSetBits ma
                \<le> length (dex_register_locations s)"
      using assms(1) Some by (simp add: wf_entry_def NumSetBits_opt_def)
    have rb: "dex_register_locations_start_index b + NumSetBits mb
                \<le> length (dex_register_locations s)"
      using assms(2) b by (simp add: wf_entry_def NumSetBits_opt_def)
    show ?thesis
    proof (cases "num_dex_registers a = num_dex_registers b \<and> ma = mb")
      case True
      have "NumSetBits ma \<le> length (dex_register_locations s)"
        and "dex_register_locations_start_index a
               \<le> length (dex_register_locations s) - NumSetBits ma"
        and "dex_register_locations_start_index b
               \<le> length (dex_register_locations s) - NumSetBits ma"
        using ra rb True by simp_all
      then show ?thesis
        using Some b na True
        by (simp add: HaveTheSameDexMaps_def same_dex_maps_def dex_map_slice_def Equal_def
            NumSetBits_opt_def Let_def)
    next
      case False
      then show ?thesis
        using Some b na
        by (auto simp: HaveTheSameDexMaps_def same_dex_maps_def Equal_def)
    qed
  qed
qed

lemma find_same_Some:
  assumes "find_same s b = Inr (Some i)"
  shows "i \<in> set b \<and> (\<exists>a. GetStackMap s i = Inr a
                          \<and> HaveTheSameDexMaps s a (current_entry s) = Inr True)"
  using assms
proof (induction b)
  case Nil
  then show ?case by simp
next
  case (Cons t rest)
  then show ?case
    by (auto simp: and_then_def split: sum.splits if_splits)
qed

lemma find_same_None:
  assumes "find_same s b = Inr None" and "i \<in> set b"
  shows "\<exists>a. GetStackMap s i = Inr a \<and> HaveTheSameDexMaps s a (current_entry s) = Inr False"
  using assms
proof (induction b)
  case Nil
  then show ?case by simp
next
  case (Cons t rest)
  then show ?case
    by (auto simp: and_then_def split: sum.splits if_splits)
qed


lemma same_dex_maps_append:
  assumes "wf_entry locs a" and "wf_entry locs b"
  shows "same_dex_maps (locs @ xs) a b = same_dex_maps locs a b"
  using assms by (simp add: same_dex_maps_def dex_map_slice_def wf_entry_def slice_append_stable)

lemma same_dex_maps_sym: "same_dex_maps locs a b \<Longrightarrow> same_dex_maps locs b a"
  by (simp add: same_dex_maps_def)

lemma same_dex_maps_trans:
  "same_dex_maps locs a b \<Longrightarrow> same_dex_maps locs b c \<Longrightarrow> same_dex_maps locs a c"
  by (simp add: same_dex_maps_def)

lemma same_dex_maps_same_as [simp]:
  "same_dex_maps locs a (b \<lparr> same_dex_register_map_as := x \<rparr>) = same_dex_maps locs a b"
  "same_dex_maps locs (a \<lparr> same_dex_register_map_as := x \<rparr>) b = same_dex_maps locs a b"
  by (simp_all add: same_dex_maps_def dex_map_slice_def)

lemma wf_entry_same_as [simp]:
  "wf_entry locs (e \<lparr> same_dex_register_map_as := x \<rparr>) = wf_entry locs e"
  by (simp add: wf_entry_def)

lemma entries_inv_append:
  assumes "entries_inv es locs bk"
  shows "entries_inv es (locs @ xs) bk"
proof -
  have wf: "\<forall>e \<in> set es. wf_entry locs e"
    using assms by (simp add: entries_inv_def)
  have nth_wf: "wf_entry locs (es ! i)" if "i < length es" for i
    using wf that by simp
  have bo: "buckets_ok es bk"
    using assms by (simp add: entries_inv_def)
  have br: "back_reference_ok es (locs @ xs) j" if j: "j < length es" for j
  proof -
    have old: "back_reference_ok es locs j"
      using assms j by (simp add: entries_inv_def)
    show ?thesis
    proof (cases "same_dex_register_map_as (es ! j) = kNoSameDexMapFound")
      case True
      then show ?thesis by (simp add: back_reference_ok_def)
    next
      case False
      with old have lt: "same_dex_register_map_as (es ! j) < j"
        by (simp add: back_reference_ok_def)
      then have "same_dex_register_map_as (es ! j) < length es"
        using j by simp
      then show ?thesis
        using old False j
        by (simp add: back_reference_ok_def same_dex_maps_append nth_wf)
    qed
  qed
  have bd: "buckets_distinct es (locs @ xs) bk"
    unfolding buckets_distinct_def
  proof (intro allI impI)
    fix h b i i'
    assume a: "bk h = Some b \<and> i \<in> set b \<and> i' \<in> set b \<and> i \<noteq> i'"
    then have "i < length es" and "i' < length es"
      using bo unfolding buckets_ok_def by blast+
    moreover have "\<not> same_dex_maps locs (es ! i) (es ! i')"
      using assms a unfolding entries_inv_def buckets_distinct_def by blast
    ultimately show "\<not> same_dex_maps (locs @ xs) (es ! i) (es ! i')"
      by (simp add: same_dex_maps_append nth_wf)
  qed
  show ?thesis
    using assms br bd wf
    by (simp add: entries_inv_def wf_entry_append)
qed

lemma FindEntryWithTheSameDexMap_cases:
  assumes inv: "stream_inv s"
    and run: "FindEntryWithTheSameDexMap s = Inr (same, s1)"
  shows "\<exists>bk'. s1 = s \<lparr> dex_map_hash_to_stack_map_indices := bk' \<rparr>
           \<and> ((dex_map_hash_to_stack_map_indices s (dex_register_map_hash (current_entry s)) = None
                \<and> same = kNoSameDexMapFound
                \<and> bk' = (dex_map_hash_to_stack_map_indices s)
                           (dex_register_map_hash (current_entry s) \<mapsto> [length (stack_maps s)]))
              \<or> (\<exists>b. dex_map_hash_to_stack_map_indices s (dex_register_map_hash (current_entry s))
                         = Some b
                    \<and> same = kNoSameDexMapFound
                    \<and> bk' = (dex_map_hash_to_stack_map_indices s)
                               (dex_register_map_hash (current_entry s)
                                  \<mapsto> b @ [length (stack_maps s)])
                    \<and> (\<forall>i \<in> set b. \<not> same_dex_maps (dex_register_locations s)
                                         (stack_maps s ! i) (current_entry s)))
              \<or> (\<exists>b. dex_map_hash_to_stack_map_indices s (dex_register_map_hash (current_entry s))
                         = Some b
                    \<and> same \<in> set b
                    \<and> bk' = dex_map_hash_to_stack_map_indices s
                    \<and> same_dex_maps (dex_register_locations s)
                         (stack_maps s ! same) (current_entry s)))"
proof (cases "dex_map_hash_to_stack_map_indices s (dex_register_map_hash (current_entry s))")
  case None
  then show ?thesis
    using run by (auto simp: FindEntryWithTheSameDexMap_def Let_def)
next
  case (Some b)
  have wfc: "wf_entry (dex_register_locations s) (current_entry s)"
    using inv by (simp add: stream_inv_def)
  have wfe: "wf_entry (dex_register_locations s) (stack_maps s ! i)"
    if "i < length (stack_maps s)" for i
    using inv that by (simp add: stream_inv_def entries_inv_def)
  have same_iff: "HaveTheSameDexMaps s a (current_entry s) = Inr r
        \<Longrightarrow> GetStackMap s i = Inr a
        \<Longrightarrow> r = same_dex_maps (dex_register_locations s) (stack_maps s ! i) (current_entry s)"
    for a r i
    using HaveTheSameDexMaps_wf [OF wfe wfc, of i]
    by (auto simp: GetStackMap_def at_index_def split: if_splits)
  from run Some obtain r where fs: "find_same s b = Inr r"
    by (auto simp: FindEntryWithTheSameDexMap_def Let_def and_then_def split: sum.splits)
  show ?thesis
  proof (cases r)
    case None
    have "\<forall>i \<in> set b. \<not> same_dex_maps (dex_register_locations s)
                          (stack_maps s ! i) (current_entry s)"
    proof
      fix i
      assume "i \<in> set b"
      from find_same_None [OF fs [unfolded None] this]
      obtain a where "GetStackMap s i = Inr a"
        and "HaveTheSameDexMaps s a (current_entry s) = Inr False"
        by blast
      then show "\<not> same_dex_maps (dex_register_locations s)
                     (stack_maps s ! i) (current_entry s)"
        using same_iff by blast
    qed
    then show ?thesis
      using run Some fs None
      by (auto simp: FindEntryWithTheSameDexMap_def Let_def and_then_def)
  next
    case (Some i)
    from find_same_Some [OF fs [unfolded Some]]
    obtain a where "i \<in> set b" and "GetStackMap s i = Inr a"
      and "HaveTheSameDexMaps s a (current_entry s) = Inr True"
      by blast
    then have ib: "i \<in> set b"
      and sm: "same_dex_maps (dex_register_locations s) (stack_maps s ! i) (current_entry s)"
      using same_iff by blast+
    have res: "same = i" "s1 = s"
      using run \<open>dex_map_hash_to_stack_map_indices s (dex_register_map_hash (current_entry s))
                  = Some b\<close> fs Some
      by (simp_all add: FindEntryWithTheSameDexMap_def Let_def and_then_def)
    have "s = s \<lparr> dex_map_hash_to_stack_map_indices := dex_map_hash_to_stack_map_indices s \<rparr>"
      by simp
    then show ?thesis
      using res ib sm
        \<open>dex_map_hash_to_stack_map_indices s (dex_register_map_hash (current_entry s)) = Some b\<close>
      by blast
  qed
qed

lemma snoc_bucket:
  assumes c: "snoc_case es locs bk cur same bk'" and b': "bk' h = Some b'"
  shows "(bk h = Some b')
       \<or> (h = dex_register_map_hash cur \<and> same = kNoSameDexMapFound
          \<and> ((bk h = None \<and> b' = [length es])
             \<or> (\<exists>b. bk h = Some b \<and> b' = b @ [length es]
                   \<and> (\<forall>i \<in> set b. \<not> same_dex_maps locs (es ! i) cur))))"
  using c b' unfolding snoc_case_def
  by (auto split: if_splits)

lemma entries_inv_snoc:
  assumes inv: "entries_inv es locs bk" and wfc: "wf_entry locs cur"
    and c: "snoc_case es locs bk cur same bk'"
  shows "entries_inv (es @ [cur \<lparr> same_dex_register_map_as := same \<rparr>]) locs bk'"
proof -
  let ?new = "cur \<lparr> same_dex_register_map_as := same \<rparr>"
  let ?es' = "es @ [?new]"
  have wf: "\<forall>e \<in> set es. wf_entry locs e"
    and bo: "buckets_ok es bk"
    and br: "\<forall>j < length es. back_reference_ok es locs j"
    and ub: "unmatched_in_bucket es bk"
    and bd: "buckets_distinct es locs bk"
    using inv by (simp_all add: entries_inv_def)
  have old_nth: "?es' ! i = es ! i" if "i < length es" for i
    using that by (simp add: nth_append)
  have new_nth: "?es' ! length es = ?new"
    by simp
  have in_old: "i < length es \<and> same_dex_register_map_as (es ! i) = kNoSameDexMapFound
                  \<and> dex_register_map_hash (es ! i) = h"
    if "bk h = Some b" and "i \<in> set b" for h b i
    using bo that unfolding buckets_ok_def by blast
  have same_cases: "same = kNoSameDexMapFound
      \<or> (same < length es \<and> same_dex_maps locs (es ! same) cur
         \<and> same_dex_register_map_as (es ! same) = kNoSameDexMapFound
         \<and> dex_register_map_hash (es ! same) = dex_register_map_hash cur)"
    using c in_old unfolding snoc_case_def by blast
  have wf': "\<forall>e \<in> set ?es'. wf_entry locs e"
    using wf wfc by simp
  have bo': "buckets_ok ?es' bk'"
    unfolding buckets_ok_def
  proof (intro allI impI)
    fix h b' i
    assume a: "bk' h = Some b' \<and> i \<in> set b'"
    from snoc_bucket [OF c] a
    consider (old) "bk h = Some b'"
      | (fresh) "h = dex_register_map_hash cur" "same = kNoSameDexMapFound" "i = length es"
      | (grown) b where "h = dex_register_map_hash cur" "same = kNoSameDexMapFound"
          "bk h = Some b" "b' = b @ [length es]"
      by fastforce
    then show "i < length ?es'
                 \<and> same_dex_register_map_as (?es' ! i) = kNoSameDexMapFound
                 \<and> dex_register_map_hash (?es' ! i) = h"
    proof cases
      case old
      with in_old a have "i < length es
          \<and> same_dex_register_map_as (es ! i) = kNoSameDexMapFound
          \<and> dex_register_map_hash (es ! i) = h"
        by blast
      then show ?thesis by (simp add: nth_append)
    next
      case fresh
      then show ?thesis by simp
    next
      case grown
      show ?thesis
      proof (cases "i = length es")
        case True
        then show ?thesis using grown by simp
      next
        case False
        then have "i \<in> set b" using a grown by simp
        with in_old grown have "i < length es
            \<and> same_dex_register_map_as (es ! i) = kNoSameDexMapFound
            \<and> dex_register_map_hash (es ! i) = h"
          by blast
        then show ?thesis by (simp add: nth_append)
      qed
    qed
  qed
  have br': "\<forall>j < length ?es'. back_reference_ok ?es' locs j"
  proof (intro allI impI)
    fix j
    assume j: "j < length ?es'"
    show "back_reference_ok ?es' locs j"
    proof (cases "j < length es")
      case True
      with br have old: "back_reference_ok es locs j" by simp
      show ?thesis
      proof (cases "same_dex_register_map_as (es ! j) = kNoSameDexMapFound")
        case k: True
        then show ?thesis using True by (simp add: back_reference_ok_def nth_append)
      next
        case k: False
        with old have "same_dex_register_map_as (es ! j) < j"
          by (simp add: back_reference_ok_def)
        then have "same_dex_register_map_as (es ! j) < length es"
          using True by simp
        then show ?thesis
          using old True k by (simp add: back_reference_ok_def nth_append)
      qed
    next
      case False
      then have jn: "j = length es" using j by simp
      from same_cases show ?thesis
      proof
        assume "same = kNoSameDexMapFound"
        then show ?thesis using jn by (simp add: back_reference_ok_def)
      next
        assume "same < length es \<and> same_dex_maps locs (es ! same) cur
                  \<and> same_dex_register_map_as (es ! same) = kNoSameDexMapFound
                  \<and> dex_register_map_hash (es ! same) = dex_register_map_hash cur"
        then show ?thesis using jn by (simp add: back_reference_ok_def nth_append)
      qed
    qed
  qed
  have ub': "unmatched_in_bucket ?es' bk'"
    unfolding unmatched_in_bucket_def
  proof (intro allI impI)
    fix j
    assume len: "length ?es' \<le> kNoSameDexMapFound" and j: "j < length ?es'"
      and un: "same_dex_register_map_as (?es' ! j) = kNoSameDexMapFound"
    have small: "length es < kNoSameDexMapFound"
      using len by simp
    show "\<exists>b. bk' (dex_register_map_hash (?es' ! j)) = Some b \<and> j \<in> set b"
    proof (cases "j < length es")
      case True
      then have "same_dex_register_map_as (es ! j) = kNoSameDexMapFound"
        using un by (simp add: nth_append)
      with ub True small obtain b where
        b: "bk (dex_register_map_hash (es ! j)) = Some b" "j \<in> set b"
        unfolding unmatched_in_bucket_def by force
      have "\<exists>b'. bk' (dex_register_map_hash (es ! j)) = Some b' \<and> j \<in> set b'"
        using c b unfolding snoc_case_def by auto
      then show ?thesis using True by (simp add: nth_append)
    next
      case False
      then have jn: "j = length es" using j by simp
      then have "same = kNoSameDexMapFound"
        using un by simp
      moreover have "\<not> (\<exists>b. bk (dex_register_map_hash cur) = Some b \<and> same \<in> set b)"
      proof
        assume "\<exists>b. bk (dex_register_map_hash cur) = Some b \<and> same \<in> set b"
        with in_old have "same < length es" by blast
        with small \<open>same = kNoSameDexMapFound\<close> show False by simp
      qed
      ultimately have "\<exists>b'. bk' (dex_register_map_hash cur) = Some b' \<and> length es \<in> set b'"
        using c unfolding snoc_case_def by auto
      then show ?thesis using jn by simp
    qed
  qed
  have bd': "buckets_distinct ?es' locs bk'"
    unfolding buckets_distinct_def
  proof (intro allI impI)
    fix h b' i i'
    assume a: "bk' h = Some b' \<and> i \<in> set b' \<and> i' \<in> set b' \<and> i \<noteq> i'"
    have in_old_pair: "\<not> same_dex_maps locs (?es' ! x) (?es' ! y)"
      if "bk h = Some b" "x \<in> set b" "y \<in> set b" "x \<noteq> y" for b x y
    proof -
      have "x < length es" "y < length es"
        using in_old that by blast+
      moreover have "\<not> same_dex_maps locs (es ! x) (es ! y)"
        using bd that unfolding buckets_distinct_def by blast
      ultimately show ?thesis by (simp add: nth_append)
    qed
    from snoc_bucket [OF c] a
    consider (old) "bk h = Some b'"
      | (fresh) "b' = [length es]"
      | (grown) b where "bk h = Some b" "b' = b @ [length es]"
          "\<forall>x \<in> set b. \<not> same_dex_maps locs (es ! x) cur"
      by fastforce
    then show "\<not> same_dex_maps locs (?es' ! i) (?es' ! i')"
    proof cases
      case old
      then show ?thesis using in_old_pair a by blast
    next
      case fresh
      with a have "i = i'" by simp
      with a show ?thesis by simp
    next
      case grown
      have against_new: "\<not> same_dex_maps locs (?es' ! x) (?es' ! length es)"
        if "x \<in> set b" for x
      proof -
        have "x < length es" using in_old grown(1) that by blast
        moreover have "\<not> same_dex_maps locs (es ! x) cur"
          using grown(3) that by blast
        ultimately show ?thesis by (simp add: nth_append)
      qed
      show ?thesis
      proof (cases "i = length es")
        case True
        then have "i' \<in> set b" using a grown by auto
        from against_new [OF this] show ?thesis
          using True same_dex_maps_sym by blast
      next
        case False
        then have ib: "i \<in> set b" using a grown by auto
        show ?thesis
        proof (cases "i' = length es")
          case True
          with against_new [OF ib] show ?thesis by simp
        next
          case False
          then have "i' \<in> set b" using a grown by auto
          with in_old_pair grown(1) ib a show ?thesis by blast
        qed
      qed
    qed
  qed
  show ?thesis
    unfolding entries_inv_def using wf' bo' br' ub' bd' by blast
qed

lemma NumSetBits_Create: "NumSetBits (Create n) = 0"
  by (simp add: NumSetBits_def Create_def)

lemma NumSetBits_update: "NumSetBits (m[i := True]) \<le> Suc (NumSetBits m)"
proof (induction m arbitrary: i)
  case Nil
  then show ?case by (simp add: NumSetBits_def)
next
  case (Cons b m)
  show ?case
  proof (cases i)
    case 0
    then show ?thesis by (simp add: NumSetBits_def)
  next
    case (Suc k)
    with Cons [of k] show ?thesis by (simp add: NumSetBits_def)
  qed
qed

lemma stream_inv_init: "stream_inv (StackMapStream_init isa)"
  by (simp add: stream_inv_def entries_inv_def StackMapStream_init_def StackMapEntry_default_def
      wf_entry_def wf_mask_def NumSetBits_opt_def buckets_ok_def unmatched_in_bucket_def
      buckets_distinct_def)

lemma BeginStackMapEntry_inv:
  assumes "stream_inv s" and "BeginStackMapEntry pc npc rm sp n d s = Inr s'"
  shows "stream_inv s'"
proof -
  have "wf_mask n (if n \<noteq> 0 then Some (Create (unat n)) else None)"
    by (simp add: wf_mask_def Create_def)
  moreover have "NumSetBits_opt (if n \<noteq> 0 then Some (Create (unat n)) else None) = 0"
    by (simp add: NumSetBits_opt_def NumSetBits_Create)
  ultimately show ?thesis
    using assms
    by (auto simp: BeginStackMapEntry_def stream_inv_def wf_entry_def split: if_splits)
qed

lemma intern_location_frame:
  "stack_maps (intern_location l s) = stack_maps s"
  "dex_map_hash_to_stack_map_indices (intern_location l s) = dex_map_hash_to_stack_map_indices s"
  "current_entry (intern_location l s) = current_entry s"
  "current_inline_info (intern_location l s) = current_inline_info s"
  "in_inline_frame (intern_location l s) = in_inline_frame s"
  "current_dex_register (intern_location l s) = current_dex_register s"
  "inline_infos (intern_location l s) = inline_infos s"
  "\<exists>x. dex_register_locations (intern_location l s) = dex_register_locations s @ [x]"
  by (simp_all add: intern_location_def Let_def split: option.splits)

lemma stream_inv_intern:
  assumes "stream_inv s"
  shows "stream_inv (intern_location l s)"
proof -
  obtain x where "dex_register_locations (intern_location l s) = dex_register_locations s @ [x]"
    using intern_location_frame(8) by blast
  then show ?thesis
    using assms
    by (simp add: stream_inv_def intern_location_frame entries_inv_append wf_entry_append)
qed

lemma AddDexRegisterEntry_inv:
  assumes inv: "stream_inv s" and run: "AddDexRegisterEntry k v s = Inr s'"
  shows "stream_inv s'"
proof (cases "k = kNone")
  case True
  then show ?thesis
    using inv run by (auto simp: AddDexRegisterEntry_def stream_inv_def)
next
  case False
  let ?s1 = "intern_location (DexRegisterLocation k v) s"
  let ?cur = "current_dex_register ?s1"
  have inv1: "stream_inv ?s1"
    by (rule stream_inv_intern [OF inv])
  obtain x where locs1: "dex_register_locations ?s1 = dex_register_locations s @ [x]"
    using intern_location_frame(8) by blast
  show ?thesis
  proof (cases "in_inline_frame ?s1")
    case True
    then show ?thesis
      using False run inv1
      by (auto simp: AddDexRegisterEntry_def Let_def stream_inv_def
          split: if_splits option.splits)
  next
    case outer: False
    from run False outer obtain m where
      lt: "?cur < num_dex_registers (current_entry ?s1)"
      and m: "live_dex_registers_mask (current_entry ?s1) = Some m"
      and s': "s' = ?s1 \<lparr> current_entry := (current_entry ?s1)
                          \<lparr> live_dex_registers_mask := Some (SetBit m (unat ?cur)),
                            dex_register_map_hash :=
                              dex_register_map_hash (current_entry ?s1)
                                + push_bit (unat (?cur mod 32)) 1 + v + Kind_to_uint32 k \<rparr>,
                        current_dex_register := ?cur + 1 \<rparr>"
      by (auto simp: AddDexRegisterEntry_def Let_def split: if_splits option.splits)
    have wf0: "wf_entry (dex_register_locations s) (current_entry s)"
      using inv by (simp add: stream_inv_def)
    have cur_eq: "current_entry ?s1 = current_entry s"
      by (simp add: intern_location_frame)
    have len: "length m = unat (num_dex_registers (current_entry s))"
      and n0: "num_dex_registers (current_entry s) \<noteq> 0"
      and room: "dex_register_locations_start_index (current_entry s) + NumSetBits m
                   \<le> length (dex_register_locations s)"
      using wf0 m cur_eq by (simp_all add: wf_entry_def wf_mask_def NumSetBits_opt_def)
    have "unat ?cur < length m"
      using lt len cur_eq by (simp add: word_less_nat_alt)
    then have set: "SetBit m (unat ?cur) = m[unat ?cur := True]"
      by (simp add: SetBit_def)
    have "NumSetBits (m[unat ?cur := True]) \<le> Suc (NumSetBits m)"
      by (rule NumSetBits_update)
    then have "wf_entry (dex_register_locations ?s1)
                 ((current_entry ?s1)
                    \<lparr> live_dex_registers_mask := Some (SetBit m (unat ?cur)),
                      dex_register_map_hash :=
                        dex_register_map_hash (current_entry ?s1)
                          + push_bit (unat (?cur mod 32)) 1 + v + Kind_to_uint32 k \<rparr>)"
      using len n0 room
      by (simp add: wf_entry_def wf_mask_def NumSetBits_opt_def set locs1 cur_eq)
    then show ?thesis
      using inv1 by (simp add: s' stream_inv_def)
  qed
qed

lemma BeginInlineInfoEntry_inv:
  assumes "stream_inv s" and "BeginInlineInfoEntry enc m pc n f s = Inr s'"
  shows "stream_inv s'"
  using assms by (auto simp: BeginInlineInfoEntry_def stream_inv_def split: if_splits)

lemma EndInlineInfoEntry_inv:
  assumes "stream_inv s" and "EndInlineInfoEntry s = Inr s'"
  shows "stream_inv s'"
  using assms by (auto simp: EndInlineInfoEntry_def stream_inv_def split: if_splits)

lemma EndStackMapEntry_inv:
  assumes inv: "stream_inv s" and run: "EndStackMapEntry s = Inr s'"
  shows "stream_inv s'"
proof -
  from run obtain same s1 where
    fe: "FindEntryWithTheSameDexMap s = Inr (same, s1)"
    and s': "s' = s1 \<lparr> stack_maps :=
                        stack_maps s1 @ [(current_entry s1) \<lparr> same_dex_register_map_as := same \<rparr>],
                      current_entry := StackMapEntry_default \<rparr>"
    by (auto simp: EndStackMapEntry_def and_then_def split: sum.splits)
  from FindEntryWithTheSameDexMap_cases [OF inv fe] obtain bk' where
    s1: "s1 = s \<lparr> dex_map_hash_to_stack_map_indices := bk' \<rparr>"
    and c: "snoc_case (stack_maps s) (dex_register_locations s)
              (dex_map_hash_to_stack_map_indices s) (current_entry s) same bk'"
    unfolding snoc_case_def by blast
  have "entries_inv (stack_maps s @ [(current_entry s) \<lparr> same_dex_register_map_as := same \<rparr>])
          (dex_register_locations s) bk'"
    using inv c by (intro entries_inv_snoc) (simp_all add: stream_inv_def)
  moreover have "wf_entry (dex_register_locations s) StackMapEntry_default"
    by (simp add: wf_entry_def wf_mask_def NumSetBits_opt_def StackMapEntry_default_def)
  ultimately show ?thesis
    by (simp add: s' s1 stream_inv_def)
qed

lemma step_inv: "stream_inv s \<Longrightarrow> step x s = Inr s' \<Longrightarrow> stream_inv s'"
  by (cases x)
     (auto intro: BeginStackMapEntry_inv AddDexRegisterEntry_inv BeginInlineInfoEntry_inv
        EndInlineInfoEntry_inv EndStackMapEntry_inv)

lemma run_inv: "stream_inv s \<Longrightarrow> run ops s = Inr s' \<Longrightarrow> stream_inv s'"
proof (induction ops arbitrary: s)
  case Nil
  then show ?case by simp
next
  case (Cons x ops)
  then show ?case
    by (auto simp: and_then_def split: sum.splits dest: step_inv)
qed

text \<open>
  C3. After any sequence of streaming calls that passes the assertions, every recorded
  stack map's same-dex-map-as back-reference is the "none" sentinel or the index of a
  strictly earlier entry, and in the second case the two dex-register maps are
  bit-exactly equal: the same register count, equal live masks, and element-wise equal
  catalog-index slices of length popcount(live mask), both inside the shared index
  array.
\<close>

theorem same_dex_map_back_reference:
  assumes "run ops (StackMapStream_init isa) = Inr s" and "j < length (stack_maps s)"
  shows "same_dex_register_map_as (stack_maps s ! j) = kNoSameDexMapFound
       \<or> (same_dex_register_map_as (stack_maps s ! j) < j
          \<and> num_dex_registers (stack_maps s ! same_dex_register_map_as (stack_maps s ! j))
              = num_dex_registers (stack_maps s ! j)
          \<and> live_dex_registers_mask (stack_maps s ! same_dex_register_map_as (stack_maps s ! j))
              = live_dex_registers_mask (stack_maps s ! j)
          \<and> slice (dex_register_locations s)
                (dex_register_locations_start_index
                   (stack_maps s ! same_dex_register_map_as (stack_maps s ! j)))
                (NumSetBits_opt (live_dex_registers_mask (stack_maps s ! j)))
              = slice (dex_register_locations s)
                  (dex_register_locations_start_index (stack_maps s ! j))
                  (NumSetBits_opt (live_dex_registers_mask (stack_maps s ! j)))
          \<and> dex_register_locations_start_index (stack_maps s ! j)
                + NumSetBits_opt (live_dex_registers_mask (stack_maps s ! j))
              \<le> length (dex_register_locations s)
          \<and> dex_register_locations_start_index
                (stack_maps s ! same_dex_register_map_as (stack_maps s ! j))
                + NumSetBits_opt (live_dex_registers_mask (stack_maps s ! j))
              \<le> length (dex_register_locations s))"
proof -
  have inv: "stream_inv s"
    using run_inv [OF stream_inv_init assms(1)] .
  then have br: "back_reference_ok (stack_maps s) (dex_register_locations s) j"
    using assms(2) by (simp add: stream_inv_def entries_inv_def)
  have wf: "wf_entry (dex_register_locations s) (stack_maps s ! i)"
    if "i < length (stack_maps s)" for i
    using inv that by (simp add: stream_inv_def entries_inv_def)
  show ?thesis
  proof (cases "same_dex_register_map_as (stack_maps s ! j) = kNoSameDexMapFound")
    case True
    then show ?thesis by simp
  next
    case False
    with br have lt: "same_dex_register_map_as (stack_maps s ! j) < j"
      and sm: "same_dex_maps (dex_register_locations s)
                 (stack_maps s ! same_dex_register_map_as (stack_maps s ! j)) (stack_maps s ! j)"
      by (simp_all add: back_reference_ok_def)
    let ?i = "same_dex_register_map_as (stack_maps s ! j)"
    from lt assms(2) have i: "?i < length (stack_maps s)"
      by simp
    from sm have n: "num_dex_registers (stack_maps s ! ?i) = num_dex_registers (stack_maps s ! j)"
      and m: "live_dex_registers_mask (stack_maps s ! ?i)
                = live_dex_registers_mask (stack_maps s ! j)"
      and sl: "dex_map_slice (dex_register_locations s) (stack_maps s ! ?i)
                 = dex_map_slice (dex_register_locations s) (stack_maps s ! j)"
      by (simp_all add: same_dex_maps_def)
    from sl have sl': "slice (dex_register_locations s)
                         (dex_register_locations_start_index (stack_maps s ! ?i))
                         (NumSetBits_opt (live_dex_registers_mask (stack_maps s ! j)))
                       = slice (dex_register_locations s)
                           (dex_register_locations_start_index (stack_maps s ! j))
                           (NumSetBits_opt (live_dex_registers_mask (stack_maps s ! j)))"
      by (simp add: dex_map_slice_def m)
    have r1: "dex_register_locations_start_index (stack_maps s ! j)
                + NumSetBits_opt (live_dex_registers_mask (stack_maps s ! j))
              \<le> length (dex_register_locations s)"
      using wf [OF assms(2)] by (simp add: wf_entry_def)
    have r2: "dex_register_locations_start_index (stack_maps s ! ?i)
                + NumSetBits_opt (live_dex_registers_mask (stack_maps s ! j))
              \<le> length (dex_register_locations s)"
      using wf [OF i] by (simp add: wf_entry_def m)
    from lt n m sl' r1 r2 show ?thesis
      by blast
  qed
qed

theorem same_dex_map_back_reference_witness:
  "run example_ops (StackMapStream_init kX86) = Inr example_stream
   \<and> 1 < length (stack_maps example_stream)
   \<and> same_dex_register_map_as (stack_maps example_stream ! 1) = 0
   \<and> num_dex_registers (stack_maps example_stream ! 0)
       = num_dex_registers (stack_maps example_stream ! 1)
   \<and> live_dex_registers_mask (stack_maps example_stream ! 0)
       = live_dex_registers_mask (stack_maps example_stream ! 1)
   \<and> slice (dex_register_locations example_stream)
         (dex_register_locations_start_index (stack_maps example_stream ! 0))
         (NumSetBits_opt (live_dex_registers_mask (stack_maps example_stream ! 1)))
       = slice (dex_register_locations example_stream)
           (dex_register_locations_start_index (stack_maps example_stream ! 1))
           (NumSetBits_opt (live_dex_registers_mask (stack_maps example_stream ! 1)))"
proof -
  have j: "1 < length (stack_maps example_stream)"
    by (simp add: example_stream_def)
  have v: "same_dex_register_map_as (stack_maps example_stream ! 1) = 0"
    by (simp add: example_stream_def)
  have ne: "same_dex_register_map_as (stack_maps example_stream ! 1) \<noteq> kNoSameDexMapFound"
    using v by (simp add: kNoSameDexMapFound_def)
  from same_dex_map_back_reference [OF example_run j] ne
  show ?thesis
    using example_run j v by simp
qed

section \<open>Properties of PrepareForFillIn\<close>

lemma unat_byte: "k < 256 \<Longrightarrow> unat (of_nat k :: 8 word) = k"
  by (simp add: unat_of_nat)

lemma Leb128_roundtrip:
  "DecodeUnsignedLeb128 (EncodeUnsignedLeb128 n @ rest) = Some (n, rest)"
proof (induction n rule: EncodeUnsignedLeb128.induct)
  case (1 n)
  show ?case
  proof (cases "n < 128")
    case True
    then have "unat (of_nat n :: 8 word) = n"
      by (simp add: unat_byte)
    then have "(of_nat n :: 8 word) < 128"
      using True by (simp add: word_less_nat_alt)
    then show ?thesis
      using True \<open>unat (of_nat n :: 8 word) = n\<close>
      by (simp add: EncodeUnsignedLeb128.simps [of n])
  next
    case False
    define b :: "8 word" where "b = of_nat (n mod 128 + 128)"
    have u: "unat b = n mod 128 + 128"
      unfolding b_def by (rule unat_byte) simp
    then have nb: "\<not> b < 128"
      by (simp add: word_less_nat_alt)
    have enc: "EncodeUnsignedLeb128 n = b # EncodeUnsignedLeb128 (n div 128)"
      using False by (subst EncodeUnsignedLeb128.simps) (simp add: b_def)
    have "n mod 128 + 128 * (n div 128) = n"
      by simp
    then show ?thesis
      using 1 [OF False] nb u by (simp add: enc)
  qed
qed

lemma decode_fields_roundtrip:
  "decode_fields (length fs) (concat (map EncodeUnsignedLeb128 fs) @ rest) = Some (fs, rest)"
  by (induction fs) (simp_all add: Leb128_roundtrip)

lemma length_header_fields: "length (header_fields e) = 20"
  by (simp add: header_fields_def)

lemma ExtractEncoding_Compress: "ExtractEncoding (Compress e) = Inr e"
proof -
  have "decode_fields 20 (Compress e) = Some (header_fields e, [])"
    using decode_fields_roundtrip [of "header_fields e" "[]"]
    by (simp add: Compress_def length_header_fields)
  then show ?thesis
    by (simp add: ExtractEncoding_def header_fields_def)
qed

lemma EncodeUnsignedLeb128_nonempty: "EncodeUnsignedLeb128 n \<noteq> []"
  by (simp add: EncodeUnsignedLeb128.simps [of n])

lemma Compress_nonempty: "Compress e \<noteq> []"
  by (simp add: Compress_def header_fields_def EncodeUnsignedLeb128_nonempty)

lemma PrepareForFillIn_needs_empty_header:
  assumes "code_info_encoding s \<noteq> []"
  shows "isl (PrepareForFillIn s)"
proof (rule ccontr)
  assume "\<not> isl (PrepareForFillIn s)"
  then obtain n s' where run: "PrepareForFillIn s = Inr (n, s')"
    by (cases "PrepareForFillIn s") auto
  then obtain n1 s1 n2 s2 where
    p1: "PrepareStackMasks (nat (stack_mask_max s + 1)) s = Inr (n1, s1)"
    and p2: "PrepareRegisterMasks s1 = Inr (n2, s2)"
    and ok: "length (code_info_encoding s2) = 0"
    by (auto simp: PrepareForFillIn_def Let_def and_then_def split: sum.splits if_splits)
  from PrepareStackMasks_frame [OF p1] PrepareRegisterMasks_frame [OF p2]
  have "code_info_encoding s2 = code_info_encoding s"
    by auto
  with ok assms show False by simp
qed

text \<open>
  C7, as amended. \<^verbatim>\<open>PrepareForFillIn\<close> is one-shot, not idempotent: a call that returns
  leaves \<open>needed_size\<close> equal to the returned size and a non-empty header buffer, and
  any further call fails (its assertion \<^verbatim>\<open>DCHECK_EQ(code_info_encoding_.size(), 0u)\<close>).
\<close>

theorem PrepareForFillIn_one_shot:
  assumes "PrepareForFillIn s = Inr (n, s')"
  shows "needed_size s' = n \<and> code_info_encoding s' \<noteq> [] \<and> isl (PrepareForFillIn s')"
proof -
  from assms have "needed_size s' = n \<and> code_info_encoding s' \<noteq> []"
    by (auto simp: PrepareForFillIn_def Let_def and_then_def Compress_nonempty
        split: sum.splits if_splits)
  then show ?thesis
    using PrepareForFillIn_needs_empty_header [of s'] by simp
qed

lemmas prepare_defs = PrepareForFillIn_def Let_def and_then_def
  ComputeDexRegisterMapsSize_def ComputeInlineInfoEncoding_def ComputeInlineInfoMaxima_def
  PrepareStackMasks_def PrepareRegisterMasks_def resize_def RoundUp_def kBitsPerByte_def
  ComputeMaxNativePcCodeOffset_def ComputeDexRegisterLocationCatalogSize_def
  DexRegisterLocationCatalog_kFixedSize_def StackMapEncoding_SetFromSizes_def
  InlineInfoEncoding_SetFromSizes_def NonHeaderSize_def Compress_def header_fields_def
  MinimumBitsToStore.simps EncodeUnsignedLeb128.simps kDexNoIndex_def
  StackMapEncoding_BitSize_def InlineInfoEncoding_BitSize_def

lemma empty_prepared_run:
  "PrepareForFillIn (StackMapStream_init kX86) = Inr (20, empty_prepared)"
  by (simp add: prepare_defs StackMapStream_init_def empty_prepared_def)

text \<open>
  C7 as stated fails: on the empty stream the first call returns 20, the size of the
  header, and the second call violates a precondition.
\<close>

theorem PrepareForFillIn_second_call_counterexample:
  "PrepareForFillIn (StackMapStream_init kX86) = Inr (20, empty_prepared)
   \<and> PrepareForFillIn empty_prepared = Inl PreconditionViolation"
  by (simp add: empty_prepared_run)
     (simp add: prepare_defs empty_prepared_def StackMapStream_init_def)

theorem PrepareForFillIn_one_shot_witness:
  "PrepareForFillIn (StackMapStream_init kX86) = Inr (20, empty_prepared)
   \<and> needed_size empty_prepared = 20 \<and> code_info_encoding empty_prepared \<noteq> []
   \<and> isl (PrepareForFillIn empty_prepared)"
  using PrepareForFillIn_one_shot [OF empty_prepared_run] empty_prepared_run
  by simp

section \<open>Sizing and filling in the dex-register maps\<close>

lemma new_dex_register_map_effect:
  assumes "new_dex_register_map t enc st n lm start = Inr (off, st')"
  shows "\<exists>sz. ComputeDexRegisterMapSize t n lm = Inr sz
           \<and> off = next_dex_register_map_offset st
           \<and> next_dex_register_map_offset st' = next_dex_register_map_offset st + sz
           \<and> next_dex_register_map_offset st' \<le> dex_register_map_num_bytes enc
           \<and> w_stack_maps st' = w_stack_maps st
           \<and> next_inline_info_index st' = next_inline_info_index st"
  using assms
  by (auto simp: new_dex_register_map_def and_then_def
      split: sum.splits if_splits option.splits)

lemma ComputeDexRegisterMapSize_zero: "ComputeDexRegisterMapSize t 0 lm = Inr 0"
  by (simp add: ComputeDexRegisterMapSize_def)

lemma ComputeDexRegisterMapSize_dead:
  "n \<noteq> 0 \<Longrightarrow> NumSetBits m = 0 \<Longrightarrow>
   ComputeDexRegisterMapSize t n (Some m) = Inr (DexRegisterMap_kFixedSize + GetLiveBitMaskSize n)"
  by (simp add: ComputeDexRegisterMapSize_def RoundUp_def kBitsPerByte_def)

lemma GetLiveBitMaskSize_pos: "n \<noteq> 0 \<Longrightarrow> 0 < GetLiveBitMaskSize n"
proof -
  assume "n \<noteq> 0"
  then have "0 < unat n"
    by (simp add: unat_gt_0)
  then show ?thesis
    by (simp add: GetLiveBitMaskSize_def RoundUp_def kBitsPerByte_def)
qed

lemma ComputeDexRegisterMapSize_pos:
  "n \<noteq> 0 \<Longrightarrow> ComputeDexRegisterMapSize t n lm = Inr sz \<Longrightarrow> 0 < sz"
  using GetLiveBitMaskSize_pos [of n]
  by (auto simp: ComputeDexRegisterMapSize_def split: option.splits)

text \<open>The four ways the dex-register-map offset of a stack map is chosen.\<close>

lemma fill_dex_register_map_offset_effect:
  assumes "fill_dex_register_map_offset t enc st e = Inr (off, st1)"
  shows "w_stack_maps st1 = w_stack_maps st
       \<and> next_inline_info_index st1 = next_inline_info_index st
       \<and> (num_dex_registers e \<noteq> 0 \<longrightarrow> live_dex_registers_mask e \<noteq> None)
       \<and> ((num_dex_registers e = 0 \<or> NumSetBits_opt (live_dex_registers_mask e) = 0)
             \<and> off = kNoDexRegisterMap \<and> st1 = st
           \<or> (num_dex_registers e \<noteq> 0 \<and> NumSetBits_opt (live_dex_registers_mask e) \<noteq> 0
               \<and> same_dex_register_map_as e \<noteq> kNoSameDexMapFound \<and> st1 = st
               \<and> same_dex_register_map_as e < length (w_stack_maps st)
               \<and> off = out_dex_register_map_offset
                         (w_stack_maps st ! same_dex_register_map_as e))
           \<or> (num_dex_registers e \<noteq> 0 \<and> NumSetBits_opt (live_dex_registers_mask e) \<noteq> 0
               \<and> same_dex_register_map_as e = kNoSameDexMapFound
               \<and> off = next_dex_register_map_offset st
               \<and> off < next_dex_register_map_offset st1
               \<and> next_dex_register_map_offset st1 \<le> dex_register_map_num_bytes enc
               \<and> ComputeDexRegisterMapSize t (num_dex_registers e) (live_dex_registers_mask e)
                   = Inr (next_dex_register_map_offset st1 - next_dex_register_map_offset st)))"
proof (cases "num_dex_registers e = 0")
  case True
  then show ?thesis
    using assms by (simp add: fill_dex_register_map_offset_def)
next
  case n: False
  then obtain m where m: "live_dex_registers_mask e = Some m"
    using assms by (cases "live_dex_registers_mask e") (simp_all add: fill_dex_register_map_offset_def)
  show ?thesis
  proof (cases "NumSetBits m = 0")
    case True
    then show ?thesis
      using assms n m by (simp add: fill_dex_register_map_offset_def NumSetBits_opt_def)
  next
    case pop: False
    show ?thesis
    proof (cases "same_dex_register_map_as e = kNoSameDexMapFound")
      case True
      with assms n m pop have
        "new_dex_register_map t enc st (num_dex_registers e) (live_dex_registers_mask e)
           (dex_register_locations_start_index e) = Inr (off, st1)"
        by (simp add: fill_dex_register_map_offset_def)
      from new_dex_register_map_effect [OF this] obtain sz where
        sz: "ComputeDexRegisterMapSize t (num_dex_registers e) (live_dex_registers_mask e) = Inr sz"
        and eff: "off = next_dex_register_map_offset st"
          "next_dex_register_map_offset st1 = next_dex_register_map_offset st + sz"
          "next_dex_register_map_offset st1 \<le> dex_register_map_num_bytes enc"
          "w_stack_maps st1 = w_stack_maps st"
          "next_inline_info_index st1 = next_inline_info_index st"
        by blast
      have "0 < sz"
        by (rule ComputeDexRegisterMapSize_pos [OF n sz])
      then show ?thesis
        using True n m pop sz eff by (simp add: NumSetBits_opt_def)
    next
      case False
      then show ?thesis
        using assms n m pop
        by (auto simp: fill_dex_register_map_offset_def NumSetBits_opt_def and_then_def
            at_index_def split: if_splits)
    qed
  qed
qed

lemma fill_inline_frame_effect:
  assumes "fill_inline_frame t enc g e d st = Inr st'"
  shows "\<exists>ie sz. at_index (inline_infos t) (d + inline_infos_start_index e) = Inr ie
           \<and> ComputeDexRegisterMapSize t (ii_num_dex_registers ie)
                (ii_live_dex_registers_mask ie) = Inr sz
           \<and> next_dex_register_map_offset st' = next_dex_register_map_offset st + sz
           \<and> next_dex_register_map_offset st' \<le> max (next_dex_register_map_offset st)
                                                     (dex_register_map_num_bytes enc)
           \<and> w_stack_maps st' = w_stack_maps st
           \<and> next_inline_info_index st' = next_inline_info_index st"
proof -
  from assms obtain ie where ie: "at_index (inline_infos t) (d + inline_infos_start_index e) = Inr ie"
    by (auto simp: fill_inline_frame_def and_then_def split: sum.splits)
  show ?thesis
  proof (cases "ii_num_dex_registers ie = 0")
    case True
    then show ?thesis
      using assms ie
      by (auto simp: fill_inline_frame_def and_then_def ComputeDexRegisterMapSize_zero
          split: if_splits)
  next
    case False
    with assms ie obtain off st1 where
      nm: "new_dex_register_map t enc st (ii_num_dex_registers ie)
             (ii_live_dex_registers_mask ie) (ii_dex_register_locations_start_index ie)
             = Inr (off, st1)"
      and st': "next_dex_register_map_offset st' = next_dex_register_map_offset st1"
        "w_stack_maps st' = w_stack_maps st1"
        "next_inline_info_index st' = next_inline_info_index st1"
      by (auto simp: fill_inline_frame_def and_then_def split: sum.splits)
    from new_dex_register_map_effect [OF nm] show ?thesis
      using ie st' by auto
  qed
qed

lemma inline_frames_sizer:
  assumes "fold_r (fill_inline_frame t enc g e) [a..<a + n] st = Inr st'"
  shows "maps_size_frames t n (a + inline_infos_start_index e) z
           = Inr (a + inline_infos_start_index e + n,
                  z + (next_dex_register_map_offset st' - next_dex_register_map_offset st))
       \<and> next_dex_register_map_offset st \<le> next_dex_register_map_offset st'
       \<and> w_stack_maps st' = w_stack_maps st
       \<and> next_inline_info_index st' = next_inline_info_index st"
  using assms
proof (induction n arbitrary: a st z)
  case 0
  then show ?case by simp
next
  case (Suc n)
  have "[a..<a + Suc n] = a # [Suc a..<Suc a + n]"
    by (simp add: upt_conv_Cons)
  with Suc.prems obtain st1 where
    one: "fill_inline_frame t enc g e a st = Inr st1"
    and more: "fold_r (fill_inline_frame t enc g e) [Suc a..<Suc a + n] st1 = Inr st'"
    by (auto simp: and_then_def split: sum.splits)
  from fill_inline_frame_effect [OF one] obtain ie sz where
    ie: "at_index (inline_infos t) (a + inline_infos_start_index e) = Inr ie"
    and sz: "ComputeDexRegisterMapSize t (ii_num_dex_registers ie)
               (ii_live_dex_registers_mask ie) = Inr sz"
    and nx: "next_dex_register_map_offset st1 = next_dex_register_map_offset st + sz"
    and fr: "w_stack_maps st1 = w_stack_maps st"
      "next_inline_info_index st1 = next_inline_info_index st"
    by blast
  from Suc.IH [OF more, of "z + sz"] have
    ih: "maps_size_frames t n (Suc a + inline_infos_start_index e) (z + sz)
           = Inr (Suc a + inline_infos_start_index e + n,
                  z + sz + (next_dex_register_map_offset st' - next_dex_register_map_offset st1))"
    and le: "next_dex_register_map_offset st1 \<le> next_dex_register_map_offset st'"
    and fr': "w_stack_maps st' = w_stack_maps st1"
      "next_inline_info_index st' = next_inline_info_index st1"
    by simp_all
  show ?case
    using ie sz nx fr ih le fr' by (simp add: and_then_def)
qed

lemma fill_inline_info_effect:
  assumes "fill_inline_info t enc st e = Inr (idx, st')"
  shows "maps_size_frames t (unat (inlining_depth e)) (next_inline_info_index st) z
           = Inr (next_inline_info_index st',
                  z + (next_dex_register_map_offset st' - next_dex_register_map_offset st))
       \<and> next_dex_register_map_offset st \<le> next_dex_register_map_offset st'
       \<and> w_stack_maps st' = w_stack_maps st"
proof (cases "inlining_depth e = 0")
  case True
  then show ?thesis
    using assms by (auto simp: fill_inline_info_def split: if_splits)
next
  case False
  let ?st0 = "st \<lparr> next_inline_info_index := next_inline_info_index st + unat (inlining_depth e),
                     w_depths := w_depths st
                                   @ [(next_inline_info_index st, unat (inlining_depth e))] \<rparr>"
  from assms False have start: "next_inline_info_index st = inline_infos_start_index e"
    and run: "fold_r (fill_inline_frame t enc (next_inline_info_index st) e)
                [0..<0 + unat (inlining_depth e)] ?st0 = Inr st'"
    by (auto simp: fill_inline_info_def Let_def and_then_def split: if_splits sum.splits)
  from inline_frames_sizer [OF run, of z] show ?thesis
    using start by simp
qed

lemma fill_stack_map_split:
  assumes "fill_stack_map t enc e st = Inr st'"
  shows "\<exists>off st1 idx st2.
           fill_dex_register_map_offset t enc st e = Inr (off, st1)
         \<and> fill_inline_info t enc st1 e = Inr (idx, st2)
         \<and> next_dex_register_map_offset st' = next_dex_register_map_offset st2
         \<and> next_inline_info_index st' = next_inline_info_index st2
         \<and> w_stack_maps st' = w_stack_maps st2 @
               [\<lparr> out_dex_pc = dex_pc e,
                  out_native_pc_code_offset = native_pc_code_offset e,
                  out_register_mask_index = register_mask_index e,
                  out_stack_mask_index = stack_mask_index e,
                  out_dex_register_map_offset = off,
                  out_inline_info_index = idx \<rparr>]"
  using assms
  by (auto simp: fill_stack_map_def and_then_def split: sum.splits)

lemma fill_stack_map_sizer:
  assumes "fill_stack_map t enc e st = Inr st'"
  shows "maps_size_entries t (e # rest) (next_inline_info_index st) z
           = maps_size_entries t rest (next_inline_info_index st')
               (z + (next_dex_register_map_offset st' - next_dex_register_map_offset st)
                  + dead_map_bytes_of e)
       \<and> next_dex_register_map_offset st \<le> next_dex_register_map_offset st'"
proof -
  from fill_stack_map_split [OF assms] obtain off st1 idx st2 where
    own: "fill_dex_register_map_offset t enc st e = Inr (off, st1)"
    and inl: "fill_inline_info t enc st1 e = Inr (idx, st2)"
    and nx: "next_dex_register_map_offset st' = next_dex_register_map_offset st2"
    and ni: "next_inline_info_index st' = next_inline_info_index st2"
    by blast
  let ?own = "if same_dex_register_map_as e = kNoSameDexMapFound
              then and_then (ComputeDexRegisterMapSize t (num_dex_registers e)
                               (live_dex_registers_mask e)) (\<lambda>n. Inr (z + n))
              else Inr z"
  from fill_dex_register_map_offset_effect [OF own] have
    i1: "next_inline_info_index st1 = next_inline_info_index st"
    and some: "num_dex_registers e \<noteq> 0 \<longrightarrow> live_dex_registers_mask e \<noteq> None"
    and cases: "(num_dex_registers e = 0 \<or> NumSetBits_opt (live_dex_registers_mask e) = 0)
             \<and> off = kNoDexRegisterMap \<and> st1 = st
           \<or> (num_dex_registers e \<noteq> 0 \<and> NumSetBits_opt (live_dex_registers_mask e) \<noteq> 0
               \<and> same_dex_register_map_as e \<noteq> kNoSameDexMapFound \<and> st1 = st
               \<and> same_dex_register_map_as e < length (w_stack_maps st)
               \<and> off = out_dex_register_map_offset
                         (w_stack_maps st ! same_dex_register_map_as e))
           \<or> (num_dex_registers e \<noteq> 0 \<and> NumSetBits_opt (live_dex_registers_mask e) \<noteq> 0
               \<and> same_dex_register_map_as e = kNoSameDexMapFound
               \<and> off = next_dex_register_map_offset st
               \<and> off < next_dex_register_map_offset st1
               \<and> next_dex_register_map_offset st1 \<le> dex_register_map_num_bytes enc
               \<and> ComputeDexRegisterMapSize t (num_dex_registers e) (live_dex_registers_mask e)
                   = Inr (next_dex_register_map_offset st1 - next_dex_register_map_offset st))"
    by simp_all
  have own_size: "?own = Inr (z + (next_dex_register_map_offset st1
                                    - next_dex_register_map_offset st) + dead_map_bytes_of e)
                  \<and> next_dex_register_map_offset st \<le> next_dex_register_map_offset st1"
  proof (cases "num_dex_registers e = 0")
    case True
    then show ?thesis
      using cases
      by (auto simp: and_then_def ComputeDexRegisterMapSize_zero dead_map_bytes_of_def)
  next
    case n: False
    with some obtain m where m: "live_dex_registers_mask e = Some m"
      by auto
    show ?thesis
    proof (cases "NumSetBits m = 0")
      case True
      then show ?thesis
        using cases n m ComputeDexRegisterMapSize_dead [OF n True, of t]
        by (auto simp: and_then_def dead_map_bytes_of_def NumSetBits_opt_def)
    next
      case False
      then show ?thesis
        using cases n m
        by (auto simp: and_then_def dead_map_bytes_of_def NumSetBits_opt_def)
    qed
  qed
  from fill_inline_info_effect [OF inl] have
    frames: "maps_size_frames t (unat (inlining_depth e)) (next_inline_info_index st1) z'
               = Inr (next_inline_info_index st2,
                      z' + (next_dex_register_map_offset st2 - next_dex_register_map_offset st1))"
    and le2: "next_dex_register_map_offset st1 \<le> next_dex_register_map_offset st2"
    for z'
    by blast+
  let ?z1 = "z + (next_dex_register_map_offset st1 - next_dex_register_map_offset st)
               + dead_map_bytes_of e"
  have "maps_size_entries t (e # rest) (next_inline_info_index st) z
          = maps_size_entries t rest (next_inline_info_index st2)
              (?z1 + (next_dex_register_map_offset st2 - next_dex_register_map_offset st1))"
    using own_size frames [of ?z1] i1 by (simp add: and_then_def)
  moreover have "?z1 + (next_dex_register_map_offset st2 - next_dex_register_map_offset st1)
                   = z + (next_dex_register_map_offset st2 - next_dex_register_map_offset st)
                       + dead_map_bytes_of e"
    using own_size le2 by arith
  ultimately show ?thesis
    using own_size le2 nx ni by simp
qed

lemma fill_loop_sizer:
  assumes "fold_r (fill_stack_map t enc) es st = Inr st'"
  shows "maps_size_entries t es (next_inline_info_index st) z
           = Inr (next_inline_info_index st',
                  z + (next_dex_register_map_offset st' - next_dex_register_map_offset st)
                    + dead_map_bytes es)
       \<and> next_dex_register_map_offset st \<le> next_dex_register_map_offset st'"
  using assms
proof (induction es arbitrary: st z)
  case Nil
  then show ?case by (simp add: dead_map_bytes_def)
next
  case (Cons e es)
  then obtain st1 where one: "fill_stack_map t enc e st = Inr st1"
    and more: "fold_r (fill_stack_map t enc) es st1 = Inr st'"
    by (auto simp: and_then_def split: sum.splits)
  from fill_stack_map_sizer [OF one, of es z] have
    s1: "maps_size_entries t (e # es) (next_inline_info_index st) z
           = maps_size_entries t es (next_inline_info_index st1)
               (z + (next_dex_register_map_offset st1 - next_dex_register_map_offset st)
                  + dead_map_bytes_of e)"
    and l1: "next_dex_register_map_offset st \<le> next_dex_register_map_offset st1"
    by blast+
  from Cons.IH [OF more] have
    s2: "maps_size_entries t es (next_inline_info_index st1) z'
           = Inr (next_inline_info_index st',
                  z' + (next_dex_register_map_offset st' - next_dex_register_map_offset st1)
                     + dead_map_bytes es)"
    and l2: "next_dex_register_map_offset st1 \<le> next_dex_register_map_offset st'"
    for z'
    by blast+
  let ?z1 = "z + (next_dex_register_map_offset st1 - next_dex_register_map_offset st)
               + dead_map_bytes_of e"
  have "?z1 + (next_dex_register_map_offset st' - next_dex_register_map_offset st1)
            + dead_map_bytes es
          = z + (next_dex_register_map_offset st' - next_dex_register_map_offset st)
              + dead_map_bytes (e # es)"
    using l1 l2 by (simp add: dead_map_bytes_def)
  then show ?case
    using l1 l2 s1 s2 [of ?z1] by simp
qed

lemma offsets_ok_dead:
  "offsets_ok es ws nxt \<Longrightarrow> j < length es
   \<Longrightarrow> num_dex_registers (es ! j) = 0 \<or> NumSetBits_opt (live_dex_registers_mask (es ! j)) = 0
   \<Longrightarrow> out_dex_register_map_offset (ws ! j) = kNoDexRegisterMap"
  unfolding offsets_ok_def by blast

lemma offsets_ok_shared:
  "offsets_ok es ws nxt \<Longrightarrow> j < length es
   \<Longrightarrow> num_dex_registers (es ! j) \<noteq> 0
   \<Longrightarrow> NumSetBits_opt (live_dex_registers_mask (es ! j)) \<noteq> 0
   \<Longrightarrow> same_dex_register_map_as (es ! j) \<noteq> kNoSameDexMapFound
   \<Longrightarrow> same_dex_register_map_as (es ! j) < j
       \<and> out_dex_register_map_offset (ws ! j)
           = out_dex_register_map_offset (ws ! same_dex_register_map_as (es ! j))"
  unfolding offsets_ok_def by blast

lemma offsets_ok_new:
  "offsets_ok es ws nxt \<Longrightarrow> j < length es
   \<Longrightarrow> num_dex_registers (es ! j) \<noteq> 0
   \<Longrightarrow> NumSetBits_opt (live_dex_registers_mask (es ! j)) \<noteq> 0
   \<Longrightarrow> same_dex_register_map_as (es ! j) = kNoSameDexMapFound
   \<Longrightarrow> out_dex_register_map_offset (ws ! j) < nxt"
  unfolding offsets_ok_def by blast

lemma inline_frames_bound:
  assumes "fold_r (fill_inline_frame t enc g e) ds st = Inr st'"
  shows "next_dex_register_map_offset st'
           \<le> max (next_dex_register_map_offset st) (dex_register_map_num_bytes enc)"
  using assms
proof (induction ds arbitrary: st)
  case Nil
  then show ?case by simp
next
  case (Cons d ds)
  then obtain st1 where one: "fill_inline_frame t enc g e d st = Inr st1"
    and more: "fold_r (fill_inline_frame t enc g e) ds st1 = Inr st'"
    by (auto simp: and_then_def split: sum.splits)
  from fill_inline_frame_effect [OF one] have
    "next_dex_register_map_offset st1
       \<le> max (next_dex_register_map_offset st) (dex_register_map_num_bytes enc)"
    by blast
  with Cons.IH [OF more] show ?case
    by simp
qed

lemma fill_inline_info_bound:
  assumes "fill_inline_info t enc st e = Inr (idx, st')"
  shows "next_dex_register_map_offset st'
           \<le> max (next_dex_register_map_offset st) (dex_register_map_num_bytes enc)"
proof (cases "inlining_depth e = 0")
  case True
  then show ?thesis
    using assms by (auto simp: fill_inline_info_def split: if_splits)
next
  case False
  let ?st0 = "st \<lparr> next_inline_info_index := next_inline_info_index st + unat (inlining_depth e),
                     w_depths := w_depths st
                                   @ [(next_inline_info_index st, unat (inlining_depth e))] \<rparr>"
  from assms False have
    "fold_r (fill_inline_frame t enc (next_inline_info_index st) e)
       [0..<unat (inlining_depth e)] ?st0 = Inr st'"
    by (auto simp: fill_inline_info_def Let_def and_then_def split: if_splits sum.splits)
  from inline_frames_bound [OF this] show ?thesis
    by simp
qed

lemma fill_stack_map_offsets:
  assumes run: "fill_stack_map t enc e st = Inr st'"
    and ok: "offsets_ok done (w_stack_maps st) (next_dex_register_map_offset st)"
  shows "offsets_ok (done @ [e]) (w_stack_maps st') (next_dex_register_map_offset st')
       \<and> next_dex_register_map_offset st'
           \<le> max (next_dex_register_map_offset st) (dex_register_map_num_bytes enc)"
proof -
  from fill_stack_map_split [OF run] obtain off st1 idx st2 x where
    own: "fill_dex_register_map_offset t enc st e = Inr (off, st1)"
    and inl: "fill_inline_info t enc st1 e = Inr (idx, st2)"
    and nx: "next_dex_register_map_offset st' = next_dex_register_map_offset st2"
    and ws: "w_stack_maps st' = w_stack_maps st2 @ [x]"
    and x: "out_dex_register_map_offset x = off"
    by force
  from fill_dex_register_map_offset_effect [OF own] have
    w1: "w_stack_maps st1 = w_stack_maps st"
    and cases: "(num_dex_registers e = 0 \<or> NumSetBits_opt (live_dex_registers_mask e) = 0)
             \<and> off = kNoDexRegisterMap \<and> st1 = st
           \<or> (num_dex_registers e \<noteq> 0 \<and> NumSetBits_opt (live_dex_registers_mask e) \<noteq> 0
               \<and> same_dex_register_map_as e \<noteq> kNoSameDexMapFound \<and> st1 = st
               \<and> same_dex_register_map_as e < length (w_stack_maps st)
               \<and> off = out_dex_register_map_offset
                         (w_stack_maps st ! same_dex_register_map_as e))
           \<or> (num_dex_registers e \<noteq> 0 \<and> NumSetBits_opt (live_dex_registers_mask e) \<noteq> 0
               \<and> same_dex_register_map_as e = kNoSameDexMapFound
               \<and> off = next_dex_register_map_offset st
               \<and> off < next_dex_register_map_offset st1
               \<and> next_dex_register_map_offset st1 \<le> dex_register_map_num_bytes enc
               \<and> ComputeDexRegisterMapSize t (num_dex_registers e) (live_dex_registers_mask e)
                   = Inr (next_dex_register_map_offset st1 - next_dex_register_map_offset st))"
    by simp_all
  from fill_inline_info_effect [OF inl, of 0] have
    le2: "next_dex_register_map_offset st1 \<le> next_dex_register_map_offset st2"
    and w2: "w_stack_maps st2 = w_stack_maps st1"
    by simp_all
  have le1: "next_dex_register_map_offset st \<le> next_dex_register_map_offset st1"
    using cases by auto
  have b1: "next_dex_register_map_offset st1
              \<le> max (next_dex_register_map_offset st) (dex_register_map_num_bytes enc)"
    using cases by auto
  have b2: "next_dex_register_map_offset st2
              \<le> max (next_dex_register_map_offset st1) (dex_register_map_num_bytes enc)"
    by (rule fill_inline_info_bound [OF inl])
  have len: "length (w_stack_maps st) = length done"
    using ok by (simp add: offsets_ok_def)
  have ws': "w_stack_maps st' = w_stack_maps st @ [x]"
    using ws w1 w2 by simp
  have "offsets_ok (done @ [e]) (w_stack_maps st @ [x]) (next_dex_register_map_offset st2)"
    unfolding offsets_ok_def
  proof (intro conjI allI impI)
    show "length (w_stack_maps st @ [x]) = length (done @ [e])"
      using len by simp
  next
    fix j
    assume j: "j < length (done @ [e])"
      and c: "num_dex_registers ((done @ [e]) ! j) = 0
              \<or> NumSetBits_opt (live_dex_registers_mask ((done @ [e]) ! j)) = 0"
    show "out_dex_register_map_offset ((w_stack_maps st @ [x]) ! j) = kNoDexRegisterMap"
    proof (cases "j < length done")
      case True
      with c have "num_dex_registers (done ! j) = 0
                   \<or> NumSetBits_opt (live_dex_registers_mask (done ! j)) = 0"
        by (simp add: nth_append)
      from offsets_ok_dead [OF ok True this] show ?thesis
        using True len by (simp add: nth_append)
    next
      case False
      then have "j = length done" using j by simp
      then show ?thesis
        using c cases x len by (auto simp: nth_append)
    qed
  next
    fix j
    assume j: "j < length (done @ [e])"
      and c: "num_dex_registers ((done @ [e]) ! j) \<noteq> 0
              \<and> NumSetBits_opt (live_dex_registers_mask ((done @ [e]) ! j)) \<noteq> 0
              \<and> same_dex_register_map_as ((done @ [e]) ! j) \<noteq> kNoSameDexMapFound"
    show "same_dex_register_map_as ((done @ [e]) ! j) < j"
    proof (cases "j < length done")
      case True
      with c offsets_ok_shared [OF ok True] show ?thesis
        by (simp add: nth_append)
    next
      case False
      then have "j = length done" using j by simp
      then show ?thesis
        using c cases len by (auto simp: nth_append)
    qed
    show "out_dex_register_map_offset ((w_stack_maps st @ [x]) ! j)
            = out_dex_register_map_offset
                ((w_stack_maps st @ [x]) ! same_dex_register_map_as ((done @ [e]) ! j))"
    proof (cases "j < length done")
      case True
      with c offsets_ok_shared [OF ok True] have "same_dex_register_map_as (done ! j) < j"
        and "out_dex_register_map_offset (w_stack_maps st ! j)
               = out_dex_register_map_offset
                   (w_stack_maps st ! same_dex_register_map_as (done ! j))"
        by (simp_all add: nth_append)
      then show ?thesis
        using True len by (simp add: nth_append)
    next
      case False
      then have "j = length done" using j by simp
      then show ?thesis
        using c cases x len by (auto simp: nth_append)
    qed
  next
    fix j
    assume j: "j < length (done @ [e])"
      and c: "num_dex_registers ((done @ [e]) ! j) \<noteq> 0
              \<and> NumSetBits_opt (live_dex_registers_mask ((done @ [e]) ! j)) \<noteq> 0
              \<and> same_dex_register_map_as ((done @ [e]) ! j) = kNoSameDexMapFound"
    show "out_dex_register_map_offset ((w_stack_maps st @ [x]) ! j)
            < next_dex_register_map_offset st2"
    proof (cases "j < length done")
      case True
      with c offsets_ok_new [OF ok True] have
        "out_dex_register_map_offset (w_stack_maps st ! j) < next_dex_register_map_offset st"
        by (simp add: nth_append)
      then show ?thesis
        using True len le1 le2 by (simp add: nth_append)
    next
      case False
      then have "j = length done" using j by simp
      then show ?thesis
        using c cases x len le2 by (auto simp: nth_append)
    qed
  qed
  then show ?thesis
    using ws' nx b1 b2 by auto
qed

lemma fill_loop_offsets:
  assumes "fold_r (fill_stack_map t enc) rest st = Inr st'"
    and "offsets_ok done (w_stack_maps st) (next_dex_register_map_offset st)"
  shows "offsets_ok (done @ rest) (w_stack_maps st') (next_dex_register_map_offset st')
       \<and> next_dex_register_map_offset st'
           \<le> max (next_dex_register_map_offset st) (dex_register_map_num_bytes enc)"
  using assms
proof (induction rest arbitrary: st "done")
  case Nil
  then show ?case by simp
next
  case (Cons e rest)
  then obtain st1 where one: "fill_stack_map t enc e st = Inr st1"
    and more: "fold_r (fill_stack_map t enc) rest st1 = Inr st'"
    by (auto simp: and_then_def split: sum.splits)
  from fill_stack_map_offsets [OF one Cons.prems(2)] have
    ok1: "offsets_ok (done @ [e]) (w_stack_maps st1) (next_dex_register_map_offset st1)"
    and b1: "next_dex_register_map_offset st1
               \<le> max (next_dex_register_map_offset st) (dex_register_map_num_bytes enc)"
    by simp_all
  from Cons.IH [OF more ok1] b1 show ?case
    by auto
qed

lemma unindexed_fields:
  "unindexed a = unindexed b \<Longrightarrow>
     num_dex_registers a = num_dex_registers b
   \<and> live_dex_registers_mask a = live_dex_registers_mask b
   \<and> dex_register_locations_start_index a = dex_register_locations_start_index b
   \<and> dex_register_map_hash a = dex_register_map_hash b
   \<and> same_dex_register_map_as a = same_dex_register_map_as b
   \<and> inlining_depth a = inlining_depth b
   \<and> inline_infos_start_index a = inline_infos_start_index b
   \<and> dex_pc a = dex_pc b \<and> native_pc_code_offset a = native_pc_code_offset b
   \<and> register_mask a = register_mask b \<and> sp_mask a = sp_mask b"
proof -
  assume eq: "unindexed a = unindexed b"
  have "f (unindexed a) = f (unindexed b)" for f :: "StackMapEntry \<Rightarrow> 'x"
    using eq by simp
  from this [of num_dex_registers] this [of live_dex_registers_mask]
    this [of dex_register_locations_start_index] this [of dex_register_map_hash]
    this [of same_dex_register_map_as] this [of inlining_depth]
    this [of inline_infos_start_index] this [of dex_pc] this [of native_pc_code_offset]
    this [of register_mask] this [of sp_mask]
  show ?thesis
    by (simp add: unindexed_def)
qed

lemma register_masks_loop_unindexed:
  "register_masks_loop es d masks = Inr (es', d', masks') \<Longrightarrow>
   map unindexed es' = map unindexed es"
proof (induction es arbitrary: d masks es' d' masks')
  case Nil
  then show ?case by simp
next
  case (Cons e es)
  then show ?case
    by (auto simp: Let_def and_then_def unindexed_def split: sum.splits if_splits prod.splits)
qed

lemma stack_masks_loop_unindexed:
  "stack_masks_loop bits B es d buf = Inr (es', d', buf') \<Longrightarrow>
   map unindexed es' = map unindexed es"
proof (induction es arbitrary: d buf es' d' buf')
  case Nil
  then show ?case by simp
next
  case (Cons e es)
  then show ?case
    by (auto simp: Let_def and_then_def unindexed_def split: sum.splits if_splits prod.splits)
qed

lemma PrepareStackMasks_unindexed:
  assumes "PrepareStackMasks bits s = Inr (n, s1)"
  shows "\<exists>es buf. s1 = s \<lparr> stack_maps := es, stack_masks := buf \<rparr>
           \<and> map unindexed es = map unindexed (stack_maps s)"
  using assms stack_masks_loop_unindexed
  by (fastforce simp: PrepareStackMasks_def Let_def and_then_def split: sum.splits)

lemma PrepareRegisterMasks_unindexed:
  assumes "PrepareRegisterMasks s = Inr (n, s1)"
  shows "\<exists>es masks. s1 = s \<lparr> stack_maps := es, register_masks := masks \<rparr>
           \<and> map unindexed es = map unindexed (stack_maps s)"
  using assms register_masks_loop_unindexed
  by (fastforce simp: PrepareRegisterMasks_def and_then_def split: sum.splits)

lemma PrepareForFillIn_result:
  assumes "PrepareForFillIn s = Inr (n, s')"
  shows "\<exists>enc es buf masks.
           s' = s \<lparr> stack_maps := es, stack_masks := buf, register_masks := masks,
                    code_info_encoding := Compress enc, needed_size := n \<rparr>
         \<and> map unindexed es = map unindexed (stack_maps s)
         \<and> ComputeDexRegisterMapsSize s = Inr (dex_register_map_num_bytes enc)
         \<and> stack_map_num_entries enc = length (stack_maps s)
         \<and> code_info_encoding s = []"
proof -
  from assms obtain D ie n1 s1 n2 s2 where
    D: "ComputeDexRegisterMapsSize s = Inr D"
    and p1: "PrepareStackMasks (nat (stack_mask_max s + 1)) s = Inr (n1, s1)"
    and p2: "PrepareRegisterMasks s1 = Inr (n2, s2)"
    and empty: "code_info_encoding s2 = []"
    and s': "s' = s2 \<lparr> code_info_encoding := Compress
                 \<lparr> dex_register_map_num_entries = 0,
                   dex_register_map_num_bytes = D,
                   location_catalog_num_entries = length (location_catalog_entries s2),
                   location_catalog_num_bytes = ComputeDexRegisterLocationCatalogSize s2,
                   inline_info_num_entries = length (inline_infos s2),
                   inline_info_encoding = ie,
                   stack_mask_num_bits = nat (stack_mask_max s + 1),
                   stack_mask_num_entries = n1,
                   register_mask_num_bits = MinimumBitsToStore (unat (register_mask_max s2)),
                   register_mask_num_entries = n2,
                   stack_map_num_entries = length (stack_maps s2),
                   stack_map_encoding =
                     StackMapEncoding_SetFromSizes (unat (ComputeMaxNativePcCodeOffset s))
                       (unat (dex_pc_max s2)) D (length (inline_infos s2)) n2 n1 \<rparr>,
               needed_size := n \<rparr>"
    by (auto simp: PrepareForFillIn_def Let_def and_then_def split: sum.splits if_splits)
  from PrepareStackMasks_unindexed [OF p1] obtain es1 buf where
    s1: "s1 = s \<lparr> stack_maps := es1, stack_masks := buf \<rparr>"
    and e1: "map unindexed es1 = map unindexed (stack_maps s)"
    by blast
  from PrepareRegisterMasks_unindexed [OF p2] obtain es2 masks where
    s2: "s2 = s1 \<lparr> stack_maps := es2, register_masks := masks \<rparr>"
    and e2: "map unindexed es2 = map unindexed (stack_maps s1)"
    by blast
  have e3: "map unindexed es2 = map unindexed (stack_maps s)"
    using e1 e2 s1 by simp
  have len: "length es2 = length (stack_maps s)"
    using e3 by (rule map_eq_imp_length_eq)
  show ?thesis
    apply (rule exI [of _ "\<lparr> dex_register_map_num_entries = 0,
                   dex_register_map_num_bytes = D,
                   location_catalog_num_entries = length (location_catalog_entries s2),
                   location_catalog_num_bytes = ComputeDexRegisterLocationCatalogSize s2,
                   inline_info_num_entries = length (inline_infos s2),
                   inline_info_encoding = ie,
                   stack_mask_num_bits = nat (stack_mask_max s + 1),
                   stack_mask_num_entries = n1,
                   register_mask_num_bits = MinimumBitsToStore (unat (register_mask_max s2)),
                   register_mask_num_entries = n2,
                   stack_map_num_entries = length (stack_maps s2),
                   stack_map_encoding =
                     StackMapEncoding_SetFromSizes (unat (ComputeMaxNativePcCodeOffset s))
                       (unat (dex_pc_max s2)) D (length (inline_infos s2)) n2 n1 \<rparr>"])
    apply (rule exI [of _ es2])
    apply (rule exI [of _ buf])
    apply (rule exI [of _ masks])
    using D s' s1 s2 e3 empty len
    apply simp
    done
qed

text \<open>The sizer and the writer read an entry only through fields that the mask interners leave alone.\<close>

lemma ComputeDexRegisterMapSize_cong:
  "location_catalog_entries t = location_catalog_entries s
   \<Longrightarrow> ComputeDexRegisterMapSize t = ComputeDexRegisterMapSize s"
  by (simp add: ComputeDexRegisterMapSize_def fun_eq_iff split: option.splits)

lemma maps_size_frames_cong:
  "inline_infos t = inline_infos s \<Longrightarrow> location_catalog_entries t = location_catalog_entries s
   \<Longrightarrow> maps_size_frames t j i z = maps_size_frames s j i z"
  by (induction j arbitrary: i z) (simp_all add: ComputeDexRegisterMapSize_cong [of t s])

lemma maps_size_entries_cong:
  "inline_infos t = inline_infos s \<Longrightarrow> location_catalog_entries t = location_catalog_entries s
   \<Longrightarrow> map unindexed es' = map unindexed es
   \<Longrightarrow> maps_size_entries t es' i z = maps_size_entries s es i z"
proof (induction es arbitrary: es' i z)
  case Nil
  then show ?case by simp
next
  case (Cons e es)
  then obtain e' rest where es': "es' = e' # rest" and e: "unindexed e' = unindexed e"
    and rest: "map unindexed rest = map unindexed es"
    by (cases es') auto
  note f = unindexed_fields [OF e]
  have cds: "ComputeDexRegisterMapSize t = ComputeDexRegisterMapSize s"
    using Cons.prems(2) by (rule ComputeDexRegisterMapSize_cong)
  show ?case
    unfolding es'
    by (simp add: f cds maps_size_frames_cong [OF Cons.prems(1,2)]
        Cons.IH [OF Cons.prems(1,2) rest] split_def)
qed

lemma dead_map_bytes_cong:
  "map unindexed es' = map unindexed es \<Longrightarrow> dead_map_bytes es' = dead_map_bytes es"
proof (induction es arbitrary: es')
  case Nil
  then show ?case by simp
next
  case (Cons e es)
  then obtain e' rest where es': "es' = e' # rest" and e: "unindexed e' = unindexed e"
    and rest: "map unindexed rest = map unindexed es"
    by (cases es') auto
  note f = unindexed_fields [OF e]
  show ?case
    using Cons.IH [OF rest] by (simp add: es' dead_map_bytes_def dead_map_bytes_of_def f)
qed

lemma unindexed_nth:
  "map unindexed es' = map unindexed es \<Longrightarrow> j < length es
   \<Longrightarrow> unindexed (es' ! j) = unindexed (es ! j)"
proof -
  assume eq: "map unindexed es' = map unindexed es" and j: "j < length es"
  have len: "length es' = length es"
    using eq by (rule map_eq_imp_length_eq)
  have "unindexed (es' ! j) = map unindexed es' ! j"
    using j len by simp
  also have "\<dots> = map unindexed es ! j"
    by (simp only: eq)
  also have "\<dots> = unindexed (es ! j)"
    using j by simp
  finally show ?thesis .
qed

lemma and_then_Inr_iff:
  "and_then x f = Inr y \<longleftrightarrow> (\<exists>v. x = Inr v \<and> f v = Inr y)"
  by (cases x) (simp_all add: and_then_def)

lemma guard_Inr_iff:
  "(if c then Inl e else x) = Inr y \<longleftrightarrow> \<not> c \<and> x = Inr y"
  by simp

lemma FillIn_result:
  assumes "FillIn t n = Inr out"
  shows "\<exists>enc st. ExtractEncoding (code_info_encoding t) = Inr enc
           \<and> fold_r (fill_stack_map t enc) (stack_maps t) fill_init = Inr st
           \<and> out_encoding out = enc
           \<and> out_stack_maps out = w_stack_maps st
           \<and> out_dex_register_maps out = w_dex_register_maps st
           \<and> out_dex_register_maps_bytes out = next_dex_register_map_offset st"
proof -
  from assms obtain enc st masks_out regs_out where
    "ExtractEncoding (code_info_encoding t) = Inr enc"
    "fold_r (fill_stack_map t enc) (stack_maps t) fill_init = Inr st"
    "out = \<lparr> out_header = code_info_encoding t,
              out_encoding = enc,
              out_catalog = fst (fill_catalog (location_catalog_entries t)
                                   DexRegisterLocationCatalog_kFixedSize),
              out_stack_maps = w_stack_maps st,
              out_dex_register_maps = w_dex_register_maps st,
              out_dex_register_maps_bytes = next_dex_register_map_offset st,
              out_inline_infos = w_inline_infos st,
              out_depths = w_depths st,
              out_stack_masks = masks_out,
              out_register_masks = regs_out \<rparr>"
    unfolding FillIn_def fill_init_def [symmetric]
    by (simp only: and_then_Inr_iff guard_Inr_iff Let_def split_def sum.inject) blast
  then show ?thesis
    by simp
qed

lemma offsets_ok_init: "offsets_ok [] (w_stack_maps fill_init) (next_dex_register_map_offset fill_init)"
  by (simp add: offsets_ok_def fill_init_def)

lemma Prepare_FillIn_facts:
  assumes prep: "PrepareForFillIn s = Inr (n, s')" and fill: "FillIn s' n = Inr out"
  shows "\<exists>st. map unindexed (stack_maps s') = map unindexed (stack_maps s)
           \<and> inline_infos s' = inline_infos s
           \<and> location_catalog_entries s' = location_catalog_entries s
           \<and> dex_register_locations s' = dex_register_locations s
           \<and> ComputeDexRegisterMapsSize s
               = Inr (dex_register_map_num_bytes (out_encoding out))
           \<and> fold_r (fill_stack_map s' (out_encoding out)) (stack_maps s') fill_init = Inr st
           \<and> out_stack_maps out = w_stack_maps st
           \<and> out_dex_register_maps out = w_dex_register_maps st
           \<and> out_dex_register_maps_bytes out = next_dex_register_map_offset st"
proof -
  from PrepareForFillIn_result [OF prep] obtain enc es buf masks where
    s': "s' = s \<lparr> stack_maps := es, stack_masks := buf, register_masks := masks,
                  code_info_encoding := Compress enc, needed_size := n \<rparr>"
    and es: "map unindexed es = map unindexed (stack_maps s)"
    and D: "ComputeDexRegisterMapsSize s = Inr (dex_register_map_num_bytes enc)"
    by blast
  from FillIn_result [OF fill] obtain enc' st where
    ex: "ExtractEncoding (code_info_encoding s') = Inr enc'"
    and loop: "fold_r (fill_stack_map s' enc') (stack_maps s') fill_init = Inr st"
    and out: "out_encoding out = enc'" "out_stack_maps out = w_stack_maps st"
      "out_dex_register_maps out = w_dex_register_maps st"
      "out_dex_register_maps_bytes out = next_dex_register_map_offset st"
    by blast
  have "enc' = enc"
    using ex by (simp add: s' ExtractEncoding_Compress)
  then show ?thesis
    using es D loop out by (intro exI [of _ st]) (simp add: s')
qed

lemma sized_is_written_plus_dead:
  assumes prep: "PrepareForFillIn s = Inr (n, s')" and fill: "FillIn s' n = Inr out"
  shows "dex_register_map_num_bytes (out_encoding out)
           = out_dex_register_maps_bytes out + dead_map_bytes (stack_maps s)"
proof -
  from Prepare_FillIn_facts [OF prep fill] obtain st where
    es: "map unindexed (stack_maps s') = map unindexed (stack_maps s)"
    and ii: "inline_infos s' = inline_infos s"
    and cat: "location_catalog_entries s' = location_catalog_entries s"
    and D: "ComputeDexRegisterMapsSize s = Inr (dex_register_map_num_bytes (out_encoding out))"
    and loop: "fold_r (fill_stack_map s' (out_encoding out)) (stack_maps s') fill_init = Inr st"
    and bytes: "out_dex_register_maps_bytes out = next_dex_register_map_offset st"
    by blast
  from fill_loop_sizer [OF loop, of 0] have
    "maps_size_entries s' (stack_maps s') 0 0
       = Inr (next_inline_info_index st,
              next_dex_register_map_offset st + dead_map_bytes (stack_maps s'))"
    by (simp add: fill_init_def)
  then have "maps_size_entries s (stack_maps s) 0 0
       = Inr (next_inline_info_index st,
              next_dex_register_map_offset st + dead_map_bytes (stack_maps s))"
    by (simp add: maps_size_entries_cong [OF ii cat es] dead_map_bytes_cong [OF es])
  then have "ComputeDexRegisterMapsSize s
       = Inr (next_dex_register_map_offset st + dead_map_bytes (stack_maps s))"
    by (simp add: ComputeDexRegisterMapsSize_def and_then_def)
  with D bytes show ?thesis
    by simp
qed

lemma written_offsets_ok:
  assumes prep: "PrepareForFillIn s = Inr (n, s')" and fill: "FillIn s' n = Inr out"
  shows "offsets_ok (stack_maps s') (out_stack_maps out) (out_dex_register_maps_bytes out)
       \<and> out_dex_register_maps_bytes out \<le> dex_register_map_num_bytes (out_encoding out)"
proof -
  from Prepare_FillIn_facts [OF prep fill] obtain st where
    loop: "fold_r (fill_stack_map s' (out_encoding out)) (stack_maps s') fill_init = Inr st"
    and ws: "out_stack_maps out = w_stack_maps st"
    and bytes: "out_dex_register_maps_bytes out = next_dex_register_map_offset st"
    by blast
  from fill_loop_offsets [OF loop offsets_ok_init] show ?thesis
    by (simp add: ws bytes fill_init_def)
qed

lemma dead_map_bytes_of_le:
  "j < length es \<Longrightarrow> dead_map_bytes_of (es ! j) \<le> dead_map_bytes es"
  unfolding dead_map_bytes_def
  by (induction es arbitrary: j) (auto simp: less_Suc_eq_0_disj trans_le_add2)

lemma example_fields:
  "stack_maps example_stream =
         [\<lparr> dex_pc = 10, native_pc_code_offset = 4, register_mask = 3,
             sp_mask = Some [False, True], num_dex_registers = 2, inlining_depth = 2,
             dex_register_locations_start_index = 0, inline_infos_start_index = 0,
             live_dex_registers_mask = Some [True, False], dex_register_map_hash = 7,
             same_dex_register_map_as = 4294967295, stack_mask_index = 0,
             register_mask_index = 0 \<rparr>,
          \<lparr> dex_pc = 20, native_pc_code_offset = 8, register_mask = 3,
             sp_mask = None, num_dex_registers = 2, inlining_depth = 0,
             dex_register_locations_start_index = 2, inline_infos_start_index = 2,
             live_dex_registers_mask = Some [True, False], dex_register_map_hash = 7,
             same_dex_register_map_as = 0, stack_mask_index = 0,
             register_mask_index = 0 \<rparr>,
          \<lparr> dex_pc = 30, native_pc_code_offset = 12, register_mask = 1,
             sp_mask = Some [True], num_dex_registers = 3, inlining_depth = 0,
             dex_register_locations_start_index = 3, inline_infos_start_index = 2,
             live_dex_registers_mask = Some [False, False, False],
             dex_register_map_hash = 0, same_dex_register_map_as = 4294967295,
             stack_mask_index = 0, register_mask_index = 0 \<rparr>]"
  "location_catalog_entries example_stream =
         [DexRegisterLocation kInRegister 5, DexRegisterLocation kConstant 3]"
  "dex_register_locations example_stream = [0, 1, 0]"
  "inline_infos example_stream =
         [\<lparr> ii_dex_pc = 4294967295, ii_method = 0x7000001000, ii_method_index = 0,
             ii_num_dex_registers = 0, ii_live_dex_registers_mask = None,
             ii_dex_register_locations_start_index = 1 \<rparr>,
          \<lparr> ii_dex_pc = 7, ii_method = 0, ii_method_index = 42,
             ii_num_dex_registers = 1, ii_live_dex_registers_mask = Some [True],
             ii_dex_register_locations_start_index = 1 \<rparr>]"
  "stack_masks example_stream = []" "register_masks example_stream = []"
  "stack_mask_max example_stream = 1" "dex_pc_max example_stream = 30"
  "register_mask_max example_stream = 3"
  "current_entry example_stream = StackMapEntry_default"
  "code_info_encoding example_stream = []" "needed_size example_stream = 0"
  by (simp_all add: example_stream_def)

lemma maps_size_frames_2:
  "maps_size_frames s 2 i z =
     and_then (at_index (inline_infos s) i) (\<lambda>a.
       and_then (ComputeDexRegisterMapSize s (ii_num_dex_registers a)
                   (ii_live_dex_registers_mask a)) (\<lambda>n.
         and_then (at_index (inline_infos s) (Suc i)) (\<lambda>b.
           and_then (ComputeDexRegisterMapSize s (ii_num_dex_registers b)
                       (ii_live_dex_registers_mask b)) (\<lambda>m.
             Inr (Suc (Suc i), z + n + m)))))"
  by (simp add: numeral_2_eq_2)

lemmas sizer_defs = ComputeDexRegisterMapsSize_def ComputeDexRegisterMapSize_def and_then_def
  kNoSameDexMapFound_def DexRegisterMap_kFixedSize_def GetLiveBitMaskSize_def
  SingleEntrySizeInBits_def RoundUp_def kBitsPerByte_def at_index_def NumSetBits_def
  MinimumBitsToStore.simps

lemma example_sized: "ComputeDexRegisterMapsSize example_stream = Inr 5"
  by (simp add: sizer_defs example_fields maps_size_frames_2)

lemma inline_maxima_frames_2:
  "inline_maxima_frames infos 2 i acc =
     and_then (at_index infos i) (\<lambda>a.
       and_then (at_index infos (Suc i)) (\<lambda>b.
         Inr (Suc (Suc i), inline_maxima_update b (inline_maxima_update a acc))))"
  by (simp add: numeral_2_eq_2)

lemma example_maxima: "ComputeInlineInfoMaxima example_stream = Inr (112, 7, 4096)"
  by (simp add: ComputeInlineInfoMaxima_def example_fields inline_maxima_frames_2 and_then_def
      at_index_def inline_maxima_update_def kDexNoIndex_def High32Bits_def Low32Bits_def)

lemma upt_2: "[0..<2] = [0, 1]"
  by code_simp

lemma example_stack_masks:
  "PrepareStackMasks 2 example_stream =
     Inr (3, example_stream
       \<lparr> stack_maps := map (\<lambda>(e, i). e \<lparr> stack_mask_index := i \<rparr>)
                            (zip (stack_maps example_stream) [0, 1, 2]),
         stack_masks := [2, 0, 1] \<rparr>)"
  by (simp add: PrepareStackMasks_def example_fields and_then_def Let_def RoundUp_def
      kBitsPerByte_def resize_def emplace_region_def StoreBit_def mask_bit_def IsBitSet_def
      upt_2 slice_def)

lemma example_prepared_run: "PrepareForFillIn example_stream = Inr (42, example_prepared)"
  by (simp add: PrepareForFillIn_def example_sized example_maxima example_stack_masks
      ComputeInlineInfoEncoding_def example_fields and_then_def Let_def
      PrepareRegisterMasks_def emplace_def
      ComputeMaxNativePcCodeOffset_def ComputeDexRegisterLocationCatalogSize_def
      DexRegisterLocationCatalog_kFixedSize_def StackMapEncoding_SetFromSizes_def
      InlineInfoEncoding_SetFromSizes_def NonHeaderSize_def Compress_def header_fields_def
      MinimumBitsToStore.simps EncodeUnsignedLeb128.simps kDexNoIndex_def
      StackMapEncoding_BitSize_def InlineInfoEncoding_BitSize_def RoundUp_def kBitsPerByte_def
      EntrySize_def IsShortConstantValue_def IsShortStackOffsetValue_def)
     (simp add: resize_def example_prepared_def)

lemma example_prepared_fields:
  "stack_maps example_prepared =
         [\<lparr> dex_pc = 10, native_pc_code_offset = 4, register_mask = 3,
             sp_mask = Some [False, True], num_dex_registers = 2, inlining_depth = 2,
             dex_register_locations_start_index = 0, inline_infos_start_index = 0,
             live_dex_registers_mask = Some [True, False], dex_register_map_hash = 7,
             same_dex_register_map_as = 4294967295, stack_mask_index = 0,
             register_mask_index = 0 \<rparr>,
          \<lparr> dex_pc = 20, native_pc_code_offset = 8, register_mask = 3,
             sp_mask = None, num_dex_registers = 2, inlining_depth = 0,
             dex_register_locations_start_index = 2, inline_infos_start_index = 2,
             live_dex_registers_mask = Some [True, False], dex_register_map_hash = 7,
             same_dex_register_map_as = 0, stack_mask_index = 1,
             register_mask_index = 0 \<rparr>,
          \<lparr> dex_pc = 30, native_pc_code_offset = 12, register_mask = 1,
             sp_mask = Some [True], num_dex_registers = 3, inlining_depth = 0,
             dex_register_locations_start_index = 3, inline_infos_start_index = 2,
             live_dex_registers_mask = Some [False, False, False],
             dex_register_map_hash = 0, same_dex_register_map_as = 4294967295,
             stack_mask_index = 2, register_mask_index = 1 \<rparr>]"
  "location_catalog_entries example_prepared = location_catalog_entries example_stream"
  "dex_register_locations example_prepared = dex_register_locations example_stream"
  "inline_infos example_prepared = inline_infos example_stream"
  "stack_masks example_prepared = [2, 0, 1]" "register_masks example_prepared = [3, 1, 0]"
  "current_entry example_prepared = StackMapEntry_default"
  "code_info_encoding example_prepared
     = [0, 5, 2, 2, 3, 4, 5, 3, 2, 2, 2, 2, 2, 3, 2, 2, 7, 4, 13, 3]"
  "needed_size example_prepared = 42"
  by (simp_all add: example_prepared_def example_fields)

lemma example_header:
  "Compress example_encoding = [0, 5, 2, 2, 3, 4, 5, 3, 2, 2, 2, 2, 2, 3, 2, 2, 7, 4, 13, 3]"
  by (simp add: example_encoding_def Compress_def header_fields_def EncodeUnsignedLeb128.simps)

lemma example_extract:
  "ExtractEncoding [0, 5, 2, 2, 3, 4, 5, 3, 2, 2, 2, 2, 2, 3, 2, 2, 7, 4, 13, 3]
     = Inr example_encoding"
  using ExtractEncoding_Compress [of example_encoding]
  by (simp add: example_header)

lemma example_encoding_fields:
  "dex_register_map_num_bytes example_encoding = 5"
  "location_catalog_num_bytes example_encoding = 2"
  "stack_map_num_entries example_encoding = 3"
  "stack_mask_num_bits example_encoding = 2"
  "stack_mask_num_entries example_encoding = 3"
  "register_mask_num_entries example_encoding = 2"
  "inline_info_bits (stack_map_encoding example_encoding) = 2"
  by (simp_all add: example_encoding_def)

lemmas fill_defs = fill_stack_map_def fill_dex_register_map_offset_def fill_inline_info_def
  fill_inline_frame_def new_dex_register_map_def FillInDexRegisterMap_def
  kNoDexRegisterMap_def kNoInlineInfo_def kNoSameDexMapFound_def ComputeDexRegisterMapSize_def
  DexRegisterMap_kFixedSize_def GetLiveBitMaskSize_def SingleEntrySizeInBits_def RoundUp_def
  kBitsPerByte_def at_index_def NumSetBits_def MinimumBitsToStore.simps slice_def
  High32Bits_def Low32Bits_def and_then_def Let_def

lemma example_loop:
  "fold_r (fill_stack_map example_prepared example_encoding) (stack_maps example_prepared)
     \<lparr> next_dex_register_map_offset = 0, next_inline_info_index = 0,
       w_stack_maps = [], w_dex_register_maps = [], w_inline_infos = [],
       w_depths = [] \<rparr> = Inr example_filled"
  by (simp add: example_prepared_fields example_fields example_encoding_fields
      fill_defs upt_2 example_filled_def)

lemma upt_3: "[0..<3] = [0, 1, 2]"
  by code_simp

lemma example_prepared_length: "length (stack_maps example_prepared) = 3"
  by (simp add: example_prepared_fields)

lemma example_fill: "FillIn example_prepared 42 = Inr example_out"
  unfolding example_out_def
  by (simp add: example_filled_def FillIn_def example_extract example_loop example_encoding_fields
      example_prepared_fields(2-) example_prepared_length example_fields
      and_then_def StackMapEntry_default_def DexRegisterLocationCatalog_kFixedSize_def
      EntrySize_def IsShortConstantValue_def RoundUp_def kBitsPerByte_def LoadBit_def
      at_index_def upt_2 upt_3 Let_def)

lemma new_dex_register_map_materialised:
  assumes run: "new_dex_register_map t enc st n lm start = Inr (off, st')"
    and n: "n \<noteq> 0"
    and ok: "materialised_ok enc (w_dex_register_maps st)"
  shows "materialised_ok enc (w_dex_register_maps st')"
proof -
  from run obtain sz m written where
    sz: "ComputeDexRegisterMapSize t n lm = Inr sz"
    and le: "next_dex_register_map_offset st + sz \<le> dex_register_map_num_bytes enc"
    and lm: "lm = Some m"
    and w: "FillInDexRegisterMap t (next_dex_register_map_offset st) sz n m start = Inr written"
    and st': "w_dex_register_maps st' = w_dex_register_maps st @ [written]"
    by (auto simp: new_dex_register_map_def and_then_def
        split: sum.splits if_splits option.splits)
  from w have "map_offset written = next_dex_register_map_offset st"
    and "map_size written = sz"
    by (auto simp: FillInDexRegisterMap_def Let_def split: if_splits)
  moreover have "0 < sz"
    using ComputeDexRegisterMapSize_pos [OF n sz] .
  ultimately show ?thesis
    using ok le by (auto simp: materialised_ok_def st')
qed

lemma fill_dex_register_map_offset_materialised:
  assumes run: "fill_dex_register_map_offset t enc st e = Inr (off, st1)"
    and ok: "materialised_ok enc (w_dex_register_maps st)"
  shows "materialised_ok enc (w_dex_register_maps st1)"
proof (cases "num_dex_registers e = 0")
  case True
  then show ?thesis
    using run ok by (simp add: fill_dex_register_map_offset_def)
next
  case False
  then show ?thesis
    using run ok new_dex_register_map_materialised [of t enc st "num_dex_registers e"
        "live_dex_registers_mask e" "dex_register_locations_start_index e" off st1]
    by (auto simp: fill_dex_register_map_offset_def and_then_def
        split: option.splits if_splits sum.splits)
qed

lemma fill_inline_frame_materialised:
  assumes run: "fill_inline_frame t enc g e d st = Inr st'"
    and ok: "materialised_ok enc (w_dex_register_maps st)"
  shows "materialised_ok enc (w_dex_register_maps st')"
proof -
  from run obtain ie where
    ie: "at_index (inline_infos t) (d + inline_infos_start_index e) = Inr ie"
    by (auto simp: fill_inline_frame_def and_then_def split: sum.splits)
  show ?thesis
  proof (cases "ii_num_dex_registers ie = 0")
    case True
    then show ?thesis
      using run ok ie
      by (auto simp: fill_inline_frame_def and_then_def split: sum.splits if_splits)
  next
    case False
    from run ie False obtain off st1 where
      new: "new_dex_register_map t enc st (ii_num_dex_registers ie)
              (ii_live_dex_registers_mask ie) (ii_dex_register_locations_start_index ie)
              = Inr (off, st1)"
      and st': "w_dex_register_maps st' = w_dex_register_maps st1"
      by (auto simp: fill_inline_frame_def and_then_def split: sum.splits)
    from new_dex_register_map_materialised [OF new False ok] show ?thesis
      by (simp add: st')
  qed
qed

lemma inline_frames_materialised:
  assumes "fold_r (fill_inline_frame t enc g e) ds st = Inr st'"
    and "materialised_ok enc (w_dex_register_maps st)"
  shows "materialised_ok enc (w_dex_register_maps st')"
  using assms
proof (induction ds arbitrary: st)
  case Nil
  then show ?case by simp
next
  case (Cons d ds)
  then obtain st1 where one: "fill_inline_frame t enc g e d st = Inr st1"
    and more: "fold_r (fill_inline_frame t enc g e) ds st1 = Inr st'"
    by (auto simp: and_then_def split: sum.splits)
  from Cons.IH [OF more fill_inline_frame_materialised [OF one Cons.prems(2)]]
  show ?case .
qed

lemma fill_inline_info_materialised:
  assumes run: "fill_inline_info t enc st e = Inr (idx, st')"
    and ok: "materialised_ok enc (w_dex_register_maps st)"
  shows "materialised_ok enc (w_dex_register_maps st')"
proof (cases "inlining_depth e = 0")
  case True
  then show ?thesis
    using run ok by (auto simp: fill_inline_info_def split: if_splits)
next
  case False
  let ?st0 = "st \<lparr> next_inline_info_index := next_inline_info_index st + unat (inlining_depth e),
                     w_depths := w_depths st
                       @ [(next_inline_info_index st, unat (inlining_depth e))] \<rparr>"
  from run False have loop:
    "fold_r (fill_inline_frame t enc (next_inline_info_index st) e)
       [0..<unat (inlining_depth e)] ?st0 = Inr st'"
    by (auto simp: fill_inline_info_def Let_def and_then_def split: if_splits sum.splits)
  have "materialised_ok enc (w_dex_register_maps ?st0)"
    using ok by simp
  from inline_frames_materialised [OF loop this] show ?thesis .
qed

lemma fill_stack_map_materialised:
  assumes run: "fill_stack_map t enc e st = Inr st'"
    and ok: "materialised_ok enc (w_dex_register_maps st)"
  shows "materialised_ok enc (w_dex_register_maps st')"
proof -
  from run obtain off st1 idx st2 where
    a: "fill_dex_register_map_offset t enc st e = Inr (off, st1)"
    and b: "fill_inline_info t enc st1 e = Inr (idx, st2)"
    and c: "w_dex_register_maps st' = w_dex_register_maps st2"
    by (auto simp: fill_stack_map_def and_then_def split: sum.splits)
  from fill_inline_info_materialised [OF b fill_dex_register_map_offset_materialised [OF a ok]]
  show ?thesis
    by (simp add: c)
qed

lemma fill_loop_materialised:
  assumes "fold_r (fill_stack_map t enc) es st = Inr st'"
    and "materialised_ok enc (w_dex_register_maps st)"
  shows "materialised_ok enc (w_dex_register_maps st')"
  using assms
proof (induction es arbitrary: st)
  case Nil
  then show ?case by simp
next
  case (Cons e es)
  then obtain st1 where one: "fill_stack_map t enc e st = Inr st1"
    and more: "fold_r (fill_stack_map t enc) es st1 = Inr st'"
    by (auto simp: and_then_def split: sum.splits)
  from Cons.IH [OF more fill_stack_map_materialised [OF one Cons.prems(2)]]
  show ?case .
qed

lemma written_maps_ok:
  assumes prep: "PrepareForFillIn s = Inr (n, s')" and fill: "FillIn s' n = Inr out"
  shows "materialised_ok (out_encoding out) (out_dex_register_maps out)"
proof -
  from Prepare_FillIn_facts [OF prep fill] obtain st where
    loop: "fold_r (fill_stack_map s' (out_encoding out)) (stack_maps s') fill_init = Inr st"
    and ms: "out_dex_register_maps out = w_dex_register_maps st"
    by blast
  have "materialised_ok (out_encoding out) (w_dex_register_maps fill_init)"
    by (simp add: materialised_ok_def fill_init_def)
  from fill_loop_materialised [OF loop this] show ?thesis
    by (simp add: ms)
qed

lemma prepared_entry_fields:
  assumes prep: "PrepareForFillIn s = Inr (n, s')" and j: "j < length (stack_maps s)"
  shows "length (stack_maps s') = length (stack_maps s)
       \<and> num_dex_registers (stack_maps s' ! j) = num_dex_registers (stack_maps s ! j)
       \<and> live_dex_registers_mask (stack_maps s' ! j) = live_dex_registers_mask (stack_maps s ! j)
       \<and> same_dex_register_map_as (stack_maps s' ! j)
           = same_dex_register_map_as (stack_maps s ! j)"
proof -
  from PrepareForFillIn_result [OF prep] obtain enc es buf masks where
    s': "s' = s \<lparr> stack_maps := es, stack_masks := buf, register_masks := masks,
                  code_info_encoding := Compress enc, needed_size := n \<rparr>"
    and es: "map unindexed es = map unindexed (stack_maps s)"
    by blast
  have len: "length es = length (stack_maps s)"
    using es by (rule map_eq_imp_length_eq)
  from unindexed_fields [OF unindexed_nth [OF es j]] len show ?thesis
    by (simp add: s')
qed

lemma fill_loop_masks:
  assumes "fold_r (fill_stack_map t enc) es st = Inr st'" and "e \<in> set es"
    and "num_dex_registers e \<noteq> 0"
  shows "live_dex_registers_mask e \<noteq> None"
  using assms
proof (induction es arbitrary: st)
  case Nil
  then show ?case by simp
next
  case (Cons a es)
  then obtain st1 where one: "fill_stack_map t enc a st = Inr st1"
    and more: "fold_r (fill_stack_map t enc) es st1 = Inr st'"
    by (auto simp: and_then_def split: sum.splits)
  show ?case
  proof (cases "e = a")
    case True
    from fill_stack_map_split [OF one] obtain off st2 where
      "fill_dex_register_map_offset t enc st a = Inr (off, st2)"
      by blast
    from fill_dex_register_map_offset_effect [OF this] show ?thesis
      using True Cons.prems(3) by blast
  next
    case False
    then have "e \<in> set es"
      using Cons.prems(2) by simp
    from Cons.IH [OF more this Cons.prems(3)] show ?thesis .
  qed
qed

text \<open>
  C10. For a stack map with registers, an all-zero live mask and no back-reference,
  \<^verbatim>\<open>ComputeDexRegisterMapSize\<close> returns the fixed size plus the live-bit-mask size, and
  \<^verbatim>\<open>ComputeDexRegisterMapsSize\<close> adds it to the size of the dex-register-map region; yet
  \<^verbatim>\<open>FillIn\<close> writes the \<^verbatim>\<open>kNoDexRegisterMap\<close> sentinel for that entry and leaves the write
  cursor where it was. After \<^verbatim>\<open>PrepareForFillIn\<close> and \<^verbatim>\<open>FillIn\<close> the sized region (the value in
  the header) is exactly the bytes written plus the bytes counted for such entries, so
  with one such entry the bytes written are strictly fewer than the region sized.
\<close>

theorem dead_maps_sized_but_not_written:
  assumes prep: "PrepareForFillIn s = Inr (n, s')" and fill: "FillIn s' n = Inr out"
  shows "ComputeDexRegisterMapsSize s
           = Inr (out_dex_register_maps_bytes out + dead_map_bytes (stack_maps s))
       \<and> dex_register_map_num_bytes (out_encoding out)
           = out_dex_register_maps_bytes out + dead_map_bytes (stack_maps s)
       \<and> (\<forall>j < length (stack_maps s).
             num_dex_registers (stack_maps s ! j) \<noteq> 0
             \<and> NumSetBits_opt (live_dex_registers_mask (stack_maps s ! j)) = 0
             \<and> same_dex_register_map_as (stack_maps s ! j) = kNoSameDexMapFound
             \<longrightarrow> ComputeDexRegisterMapSize s (num_dex_registers (stack_maps s ! j))
                   (live_dex_registers_mask (stack_maps s ! j))
                   = Inr (DexRegisterMap_kFixedSize
                          + GetLiveBitMaskSize (num_dex_registers (stack_maps s ! j)))
               \<and> dead_map_bytes_of (stack_maps s ! j)
                   = DexRegisterMap_kFixedSize
                     + GetLiveBitMaskSize (num_dex_registers (stack_maps s ! j))
               \<and> 0 < GetLiveBitMaskSize (num_dex_registers (stack_maps s ! j))
               \<and> out_dex_register_map_offset (out_stack_maps out ! j) = kNoDexRegisterMap
               \<and> (\<forall>st. fill_dex_register_map_offset s' (out_encoding out) st (stack_maps s' ! j)
                           = Inr (kNoDexRegisterMap, st))
               \<and> out_dex_register_maps_bytes out
                   < dex_register_map_num_bytes (out_encoding out))"
proof (intro conjI allI impI)
  have total: "dex_register_map_num_bytes (out_encoding out)
           = out_dex_register_maps_bytes out + dead_map_bytes (stack_maps s)"
    by (rule sized_is_written_plus_dead [OF prep fill])
  from Prepare_FillIn_facts [OF prep fill] have
    D: "ComputeDexRegisterMapsSize s = Inr (dex_register_map_num_bytes (out_encoding out))"
    by blast
  show "ComputeDexRegisterMapsSize s
           = Inr (out_dex_register_maps_bytes out + dead_map_bytes (stack_maps s))"
    using D total by simp
  show "dex_register_map_num_bytes (out_encoding out)
           = out_dex_register_maps_bytes out + dead_map_bytes (stack_maps s)"
    by (rule total)
  fix j
  assume j: "j < length (stack_maps s)"
    and dead: "num_dex_registers (stack_maps s ! j) \<noteq> 0
             \<and> NumSetBits_opt (live_dex_registers_mask (stack_maps s ! j)) = 0
             \<and> same_dex_register_map_as (stack_maps s ! j) = kNoSameDexMapFound"
  let ?e = "stack_maps s ! j"
  let ?e' = "stack_maps s' ! j"
  note f = prepared_entry_fields [OF prep j]
  from written_offsets_ok [OF prep fill] have
    ok: "offsets_ok (stack_maps s') (out_stack_maps out) (out_dex_register_maps_bytes out)"
    by blast
  have j': "j < length (stack_maps s')"
    using j f by simp
  show sentinel: "out_dex_register_map_offset (out_stack_maps out ! j) = kNoDexRegisterMap"
    using offsets_ok_dead [OF ok j'] dead f by simp
  from Prepare_FillIn_facts [OF prep fill] obtain st where
    loop: "fold_r (fill_stack_map s' (out_encoding out)) (stack_maps s') fill_init = Inr st"
    by blast
  have "?e' \<in> set (stack_maps s')"
    using j' by simp
  from fill_loop_masks [OF loop this] have mask: "live_dex_registers_mask ?e \<noteq> None"
    using dead f by simp
  then obtain m where m: "live_dex_registers_mask ?e = Some m" and zero: "NumSetBits m = 0"
    using dead by (auto simp: NumSetBits_opt_def)
  show "ComputeDexRegisterMapSize s (num_dex_registers ?e) (live_dex_registers_mask ?e)
          = Inr (DexRegisterMap_kFixedSize + GetLiveBitMaskSize (num_dex_registers ?e))"
    using dead zero by (simp add: m ComputeDexRegisterMapSize_dead)
  show bytes: "dead_map_bytes_of ?e
          = DexRegisterMap_kFixedSize + GetLiveBitMaskSize (num_dex_registers ?e)"
    using dead by (simp add: dead_map_bytes_of_def)
  show pos: "0 < GetLiveBitMaskSize (num_dex_registers ?e)"
    using dead by (simp add: GetLiveBitMaskSize_pos)
  show "fill_dex_register_map_offset s' (out_encoding out) st ?e'
          = Inr (kNoDexRegisterMap, st)" for st
    using dead f m zero by (simp add: fill_dex_register_map_offset_def)
  have "0 < dead_map_bytes_of ?e"
    using bytes pos by simp
  with dead_map_bytes_of_le [OF j] have "0 < dead_map_bytes (stack_maps s)"
    by simp
  with total show "out_dex_register_maps_bytes out
                     < dex_register_map_num_bytes (out_encoding out)"
    by simp
qed

lemma same_dex_maps_absent:
  "same_dex_maps locs a b \<Longrightarrow> map_absent a = map_absent b"
  by (simp add: same_dex_maps_def map_absent_def)

lemma present_offset_below:
  assumes inv: "stream_inv s"
    and prep: "PrepareForFillIn s = Inr (n, s')" and fill: "FillIn s' n = Inr out"
    and j: "j < length (stack_maps s)"
    and present: "\<not> map_absent (stack_maps s ! j)"
  shows "out_dex_register_map_offset (out_stack_maps out ! j) < out_dex_register_maps_bytes out"
proof -
  let ?es = "stack_maps s" and ?es' = "stack_maps s'"
  from written_offsets_ok [OF prep fill] have
    ok: "offsets_ok ?es' (out_stack_maps out) (out_dex_register_maps_bytes out)"
    by blast
  note f = prepared_entry_fields [OF prep j]
  have j': "j < length ?es'"
    using j f by simp
  have live: "num_dex_registers (?es' ! j) \<noteq> 0"
    "NumSetBits_opt (live_dex_registers_mask (?es' ! j)) \<noteq> 0"
    using present f by (simp_all add: map_absent_def)
  show ?thesis
  proof (cases "same_dex_register_map_as (?es ! j) = kNoSameDexMapFound")
    case True
    then show ?thesis
      using offsets_ok_new [OF ok j' live] f by simp
  next
    case False
    let ?r = "same_dex_register_map_as (?es ! j)"
    have "back_reference_ok ?es (dex_register_locations s) j"
      using inv j by (simp add: stream_inv_def entries_inv_def)
    with False have r: "?r < j"
      and same: "same_dex_maps (dex_register_locations s) (?es ! ?r) (?es ! j)"
      and none: "same_dex_register_map_as (?es ! ?r) = kNoSameDexMapFound"
      by (auto simp: back_reference_ok_def)
    have rlen: "?r < length ?es"
      using r j by simp
    note g = prepared_entry_fields [OF prep rlen]
    have r': "?r < length ?es'"
      using rlen g by simp
    have "\<not> map_absent (?es ! ?r)"
      using same_dex_maps_absent [OF same] present by simp
    then have liver: "num_dex_registers (?es' ! ?r) \<noteq> 0"
      "NumSetBits_opt (live_dex_registers_mask (?es' ! ?r)) \<noteq> 0"
      using g by (simp_all add: map_absent_def)
    have "out_dex_register_map_offset (out_stack_maps out ! ?r)
            < out_dex_register_maps_bytes out"
      using offsets_ok_new [OF ok r' liver] none g by simp
    moreover have "out_dex_register_map_offset (out_stack_maps out ! j)
            = out_dex_register_map_offset (out_stack_maps out ! ?r)"
      using offsets_ok_shared [OF ok j' live] False f by simp
    ultimately show ?thesis
      by simp
  qed
qed

lemma absent_offset_sentinel:
  assumes prep: "PrepareForFillIn s = Inr (n, s')" and fill: "FillIn s' n = Inr out"
    and j: "j < length (stack_maps s)"
    and absent: "map_absent (stack_maps s ! j)"
  shows "out_dex_register_map_offset (out_stack_maps out ! j) = kNoDexRegisterMap"
proof -
  from written_offsets_ok [OF prep fill] have
    ok: "offsets_ok (stack_maps s') (out_stack_maps out) (out_dex_register_maps_bytes out)"
    by blast
  note f = prepared_entry_fields [OF prep j]
  have j': "j < length (stack_maps s')"
    using j f by simp
  show ?thesis
    using offsets_ok_dead [OF ok j'] absent f by (simp add: map_absent_def)
qed

text \<open>
  C4. For a stream built by the streaming calls, then prepared and filled in, with a
  dex-register-map region smaller than the sentinel value: the offset \<^verbatim>\<open>FillIn\<close> writes
  for a stack map is \<^verbatim>\<open>kNoDexRegisterMap\<close> exactly when the entry has no registers or no live
  register; any other offset lies below the bytes written; and every dex-register map
  that was materialised has a positive size, lies inside the region and does not start at
  the sentinel, so an entry without a map never gets the offset of an empty map.
\<close>

theorem dex_register_map_offset_sentinel_iff:
  assumes run: "run ops (StackMapStream_init isa) = Inr s"
    and prep: "PrepareForFillIn s = Inr (n, s')" and fill: "FillIn s' n = Inr out"
    and small: "dex_register_map_num_bytes (out_encoding out) \<le> kNoDexRegisterMap"
  shows "length (out_stack_maps out) = length (stack_maps s)
       \<and> (\<forall>j < length (stack_maps s).
             (out_dex_register_map_offset (out_stack_maps out ! j) = kNoDexRegisterMap
                \<longleftrightarrow> num_dex_registers (stack_maps s ! j) = 0
                    \<or> NumSetBits_opt (live_dex_registers_mask (stack_maps s ! j)) = 0)
           \<and> (out_dex_register_map_offset (out_stack_maps out ! j) \<noteq> kNoDexRegisterMap
                \<longrightarrow> out_dex_register_map_offset (out_stack_maps out ! j)
                      < out_dex_register_maps_bytes out))
       \<and> (\<forall>m \<in> set (out_dex_register_maps out).
             0 < map_size m
             \<and> map_offset m + map_size m \<le> dex_register_map_num_bytes (out_encoding out)
             \<and> map_offset m \<noteq> kNoDexRegisterMap)"
proof (intro conjI allI impI ballI)
  have inv: "stream_inv s"
    by (rule run_inv [OF stream_inv_init run])
  from written_offsets_ok [OF prep fill] have
    ok: "offsets_ok (stack_maps s') (out_stack_maps out) (out_dex_register_maps_bytes out)"
    and le: "out_dex_register_maps_bytes out \<le> dex_register_map_num_bytes (out_encoding out)"
    by blast+
  from PrepareForFillIn_result [OF prep] have len: "length (stack_maps s') = length (stack_maps s)"
    by (auto dest: map_eq_imp_length_eq)
  show "length (out_stack_maps out) = length (stack_maps s)"
    using ok len by (simp add: offsets_ok_def)
  {
    fix j
    assume j: "j < length (stack_maps s)"
    have a: "map_absent (stack_maps s ! j)
             \<Longrightarrow> out_dex_register_map_offset (out_stack_maps out ! j) = kNoDexRegisterMap"
      by (rule absent_offset_sentinel [OF prep fill j])
    have b: "\<not> map_absent (stack_maps s ! j)
             \<Longrightarrow> out_dex_register_map_offset (out_stack_maps out ! j)
                   < out_dex_register_maps_bytes out"
      by (rule present_offset_below [OF inv prep fill j])
    show "out_dex_register_map_offset (out_stack_maps out ! j) = kNoDexRegisterMap
            \<longleftrightarrow> num_dex_registers (stack_maps s ! j) = 0
                \<or> NumSetBits_opt (live_dex_registers_mask (stack_maps s ! j)) = 0"
      using a b le small unfolding map_absent_def by fastforce
    assume "out_dex_register_map_offset (out_stack_maps out ! j) \<noteq> kNoDexRegisterMap"
    then show "out_dex_register_map_offset (out_stack_maps out ! j)
                 < out_dex_register_maps_bytes out"
      using a b by blast
  }
  fix m
  assume m: "m \<in> set (out_dex_register_maps out)"
  from written_maps_ok [OF prep fill] m have
    pos: "0 < map_size m"
    and fit: "map_offset m + map_size m \<le> dex_register_map_num_bytes (out_encoding out)"
    by (auto simp: materialised_ok_def)
  show "0 < map_size m" by (rule pos)
  show "map_offset m + map_size m \<le> dex_register_map_num_bytes (out_encoding out)"
    by (rule fit)
  show "map_offset m \<noteq> kNoDexRegisterMap"
    using pos fit small by simp
qed

lemma example_out_fields:
  "out_encoding example_out = example_encoding"
  "out_dex_register_maps_bytes example_out = 4"
  "map out_dex_register_map_offset (out_stack_maps example_out) = [0, 0, 4294967295]"
  "out_dex_register_maps example_out = w_dex_register_maps example_filled"
  by (simp_all add: example_out_def example_filled_def)

theorem dead_maps_sized_but_not_written_witness:
  "PrepareForFillIn example_stream = Inr (42, example_prepared)
   \<and> FillIn example_prepared 42 = Inr example_out
   \<and> num_dex_registers (stack_maps example_stream ! 2) = 3
   \<and> live_dex_registers_mask (stack_maps example_stream ! 2) = Some [False, False, False]
   \<and> same_dex_register_map_as (stack_maps example_stream ! 2) = kNoSameDexMapFound
   \<and> ComputeDexRegisterMapSize example_stream 3 (Some [False, False, False]) = Inr 1
   \<and> out_dex_register_map_offset (out_stack_maps example_out ! 2) = kNoDexRegisterMap
   \<and> ComputeDexRegisterMapsSize example_stream = Inr 5
   \<and> dex_register_map_num_bytes (out_encoding example_out) = 5
   \<and> out_dex_register_maps_bytes example_out = 4"
proof -
  note t = dead_maps_sized_but_not_written [OF example_prepared_run example_fill]
  have j: "2 < length (stack_maps example_stream)"
    by (simp add: example_fields)
  have e: "num_dex_registers (stack_maps example_stream ! 2) = 3"
    "live_dex_registers_mask (stack_maps example_stream ! 2) = Some [False, False, False]"
    "same_dex_register_map_as (stack_maps example_stream ! 2) = kNoSameDexMapFound"
    by (simp_all add: example_fields kNoSameDexMapFound_def)
  have dead: "num_dex_registers (stack_maps example_stream ! 2) \<noteq> 0
      \<and> NumSetBits_opt (live_dex_registers_mask (stack_maps example_stream ! 2)) = 0
      \<and> same_dex_register_map_as (stack_maps example_stream ! 2) = kNoSameDexMapFound"
    by (simp add: e NumSetBits_opt_def NumSetBits_def)
  from t j dead have
    "ComputeDexRegisterMapSize example_stream
       (num_dex_registers (stack_maps example_stream ! 2))
       (live_dex_registers_mask (stack_maps example_stream ! 2))
       = Inr (DexRegisterMap_kFixedSize
              + GetLiveBitMaskSize (num_dex_registers (stack_maps example_stream ! 2)))"
    and "out_dex_register_map_offset (out_stack_maps example_out ! 2) = kNoDexRegisterMap"
    by blast+
  moreover from t have "ComputeDexRegisterMapsSize example_stream
       = Inr (out_dex_register_maps_bytes example_out
              + dead_map_bytes (stack_maps example_stream))"
    and "dex_register_map_num_bytes (out_encoding example_out)
       = out_dex_register_maps_bytes example_out + dead_map_bytes (stack_maps example_stream)"
    by blast+
  moreover have "dead_map_bytes (stack_maps example_stream) = 1"
    by (simp add: dead_map_bytes_def dead_map_bytes_of_def example_fields NumSetBits_opt_def
        NumSetBits_def kNoSameDexMapFound_def DexRegisterMap_kFixedSize_def
        GetLiveBitMaskSize_def RoundUp_def kBitsPerByte_def)
  ultimately show ?thesis
    using example_prepared_run example_fill e
    by (simp add: example_out_fields DexRegisterMap_kFixedSize_def GetLiveBitMaskSize_def
        RoundUp_def kBitsPerByte_def)
qed

theorem dex_register_map_offset_sentinel_iff_witness:
  "run example_ops (StackMapStream_init kX86) = Inr example_stream
   \<and> PrepareForFillIn example_stream = Inr (42, example_prepared)
   \<and> FillIn example_prepared 42 = Inr example_out
   \<and> dex_register_map_num_bytes (out_encoding example_out) \<le> kNoDexRegisterMap
   \<and> map out_dex_register_map_offset (out_stack_maps example_out) = [0, 0, kNoDexRegisterMap]
   \<and> map (\<lambda>e. num_dex_registers e = 0 \<or> NumSetBits_opt (live_dex_registers_mask e) = 0)
        (stack_maps example_stream) = [False, False, True]
   \<and> (out_dex_register_map_offset (out_stack_maps example_out ! 2) = kNoDexRegisterMap
         \<longleftrightarrow> num_dex_registers (stack_maps example_stream ! 2) = 0
             \<or> NumSetBits_opt (live_dex_registers_mask (stack_maps example_stream ! 2)) = 0)
   \<and> (out_dex_register_map_offset (out_stack_maps example_out ! 1) = kNoDexRegisterMap
         \<longleftrightarrow> num_dex_registers (stack_maps example_stream ! 1) = 0
             \<or> NumSetBits_opt (live_dex_registers_mask (stack_maps example_stream ! 1)) = 0)"
proof -
  have small: "dex_register_map_num_bytes (out_encoding example_out) \<le> kNoDexRegisterMap"
    by (simp add: example_out_fields example_encoding_fields kNoDexRegisterMap_def)
  note t = dex_register_map_offset_sentinel_iff
             [OF example_run example_prepared_run example_fill small]
  have "map (\<lambda>e. num_dex_registers e = 0 \<or> NumSetBits_opt (live_dex_registers_mask e) = 0)
        (stack_maps example_stream) = [False, False, True]"
    by (simp add: example_fields NumSetBits_opt_def NumSetBits_def)
  moreover have "2 < length (stack_maps example_stream)"
    and "1 < length (stack_maps example_stream)"
    by (simp_all add: example_fields)
  with t have "out_dex_register_map_offset (out_stack_maps example_out ! 2) = kNoDexRegisterMap
         \<longleftrightarrow> num_dex_registers (stack_maps example_stream ! 2) = 0
             \<or> NumSetBits_opt (live_dex_registers_mask (stack_maps example_stream ! 2)) = 0"
    and "out_dex_register_map_offset (out_stack_maps example_out ! 1) = kNoDexRegisterMap
         \<longleftrightarrow> num_dex_registers (stack_maps example_stream ! 1) = 0
             \<or> NumSetBits_opt (live_dex_registers_mask (stack_maps example_stream ! 1)) = 0"
    by simp_all
  ultimately show ?thesis
    using example_run example_prepared_run example_fill small
    by (simp add: example_out_fields kNoDexRegisterMap_def)
qed

section \<open>Sharing of dex-register maps\<close>

lemma representative_facts:
  assumes inv: "entries_inv es locs bk" and k: "k < length es"
  shows "representative es k \<le> k
       \<and> same_dex_register_map_as (es ! representative es k) = kNoSameDexMapFound
       \<and> same_dex_maps locs (es ! representative es k) (es ! k)
       \<and> dex_register_map_hash (es ! representative es k) = dex_register_map_hash (es ! k)"
proof (cases "same_dex_register_map_as (es ! k) = kNoSameDexMapFound")
  case True
  then show ?thesis
    by (simp add: representative_def same_dex_maps_def)
next
  case False
  have "back_reference_ok es locs k"
    using inv k by (simp add: entries_inv_def)
  with False show ?thesis
    by (auto simp: representative_def back_reference_ok_def)
qed

lemma equal_hash_equal_representative:
  assumes inv: "entries_inv es locs bk" and count: "length es \<le> kNoSameDexMapFound"
    and i: "i < length es" and j: "j < length es"
    and same: "same_dex_maps locs (es ! i) (es ! j)"
    and hash: "dex_register_map_hash (es ! i) = dex_register_map_hash (es ! j)"
  shows "representative es i = representative es j"
proof (rule ccontr)
  let ?ri = "representative es i" and ?rj = "representative es j"
  assume ne: "?ri \<noteq> ?rj"
  note fi = representative_facts [OF inv i]
  note fj = representative_facts [OF inv j]
  have ri: "?ri < length es" and rj: "?rj < length es"
    using fi fj i j by simp_all
  have um: "unmatched_in_bucket es bk" and bd: "buckets_distinct es locs bk"
    using inv by (simp_all add: entries_inv_def)
  from um count ri fi obtain b where
    b: "bk (dex_register_map_hash (es ! ?ri)) = Some b" and bi: "?ri \<in> set b"
    unfolding unmatched_in_bucket_def by blast
  from um count rj fj obtain b' where
    b': "bk (dex_register_map_hash (es ! ?rj)) = Some b'" and bj: "?rj \<in> set b'"
    unfolding unmatched_in_bucket_def by blast
  have "dex_register_map_hash (es ! ?ri) = dex_register_map_hash (es ! ?rj)"
    using fi fj hash by simp
  then have "b' = b"
    using b b' by simp
  then have bj': "?rj \<in> set b"
    using bj by simp
  have "same_dex_maps locs (es ! ?ri) (es ! ?rj)"
    using fi fj same same_dex_maps_sym same_dex_maps_trans by blast
  moreover have "\<not> same_dex_maps locs (es ! ?ri) (es ! ?rj)"
    using bd b bi bj' ne unfolding buckets_distinct_def by blast
  ultimately show False
    by simp
qed

text \<open>
  C2, as amended. Take a stream built by the streaming calls, then prepared and filled
  in, and two of its stack maps, \<open>i\<close> before \<open>j\<close>. If their dex-register maps are
  bit-identical (equal register count, equal live masks, equal catalog-index slices) and
  their rolling hashes are equal, or if both maps are absent (no registers, or none
  live), then \<^verbatim>\<open>FillIn\<close> writes the same dex-register-map offset for both. When the map is
  present, the later entry has a back-reference to an entry at or before \<open>i\<close>, its offset
  is the one written for that entry, and the step that writes it leaves the writer's
  state as it was: no second copy of the map is materialised.
\<close>

theorem identical_maps_share_offset:
  assumes run: "run ops (StackMapStream_init isa) = Inr s"
    and prep: "PrepareForFillIn s = Inr (n, s')" and fill: "FillIn s' n = Inr out"
    and count: "length (stack_maps s) \<le> kNoSameDexMapFound"
    and ij: "i < j" and j: "j < length (stack_maps s)"
    and same: "same_dex_maps (dex_register_locations s) (stack_maps s ! i) (stack_maps s ! j)
                 \<and> dex_register_map_hash (stack_maps s ! i)
                     = dex_register_map_hash (stack_maps s ! j)
               \<or> map_absent (stack_maps s ! i) \<and> map_absent (stack_maps s ! j)"
  shows "out_dex_register_map_offset (out_stack_maps out ! i)
           = out_dex_register_map_offset (out_stack_maps out ! j)
       \<and> (map_absent (stack_maps s ! j)
          \<or> same_dex_register_map_as (stack_maps s ! j) \<noteq> kNoSameDexMapFound
             \<and> same_dex_register_map_as (stack_maps s ! j) \<le> i
             \<and> out_dex_register_map_offset (out_stack_maps out ! j)
                 = out_dex_register_map_offset
                     (out_stack_maps out ! same_dex_register_map_as (stack_maps s ! j))
             \<and> (\<forall>st off st1.
                   fill_dex_register_map_offset s' (out_encoding out) st (stack_maps s' ! j)
                     = Inr (off, st1) \<longrightarrow> st1 = st))"
proof -
  let ?es = "stack_maps s" and ?es' = "stack_maps s'"
  let ?off = "\<lambda>k. out_dex_register_map_offset (out_stack_maps out ! k)"
  have i: "i < length ?es"
    using ij j by simp
  show ?thesis
  proof (cases "map_absent (?es ! i) \<and> map_absent (?es ! j)")
    case True
    then show ?thesis
      using absent_offset_sentinel [OF prep fill i] absent_offset_sentinel [OF prep fill j]
      by simp
  next
    case False
    with same have sm: "same_dex_maps (dex_register_locations s) (?es ! i) (?es ! j)"
      and hash: "dex_register_map_hash (?es ! i) = dex_register_map_hash (?es ! j)"
      by blast+
    have present: "\<not> map_absent (?es ! i)" "\<not> map_absent (?es ! j)"
      using False same_dex_maps_absent [OF sm] by simp_all
    have inv: "entries_inv ?es (dex_register_locations s) (dex_map_hash_to_stack_map_indices s)"
      using run_inv [OF stream_inv_init run] by (simp add: stream_inv_def)
    have rep: "representative ?es i = representative ?es j"
      by (rule equal_hash_equal_representative [OF inv count i j sm hash])
    note fi = representative_facts [OF inv i]
    have bref: "same_dex_register_map_as (?es ! j) \<noteq> kNoSameDexMapFound"
    proof
      assume "same_dex_register_map_as (?es ! j) = kNoSameDexMapFound"
      then have "representative ?es j = j"
        by (simp add: representative_def)
      with rep fi ij show False
        by simp
    qed
    then have rj: "representative ?es j = same_dex_register_map_as (?es ! j)"
      by (simp add: representative_def)
    have le: "same_dex_register_map_as (?es ! j) \<le> i"
      using rep rj fi by simp
    from written_offsets_ok [OF prep fill] have
      ok: "offsets_ok ?es' (out_stack_maps out) (out_dex_register_maps_bytes out)"
      by blast
    have shared: "?off k = ?off (same_dex_register_map_as (?es ! k))"
      if k: "k < length ?es" and p: "\<not> map_absent (?es ! k)"
        and b: "same_dex_register_map_as (?es ! k) \<noteq> kNoSameDexMapFound" for k
    proof -
      note f = prepared_entry_fields [OF prep k]
      have k': "k < length ?es'"
        using k f by simp
      show ?thesis
        using offsets_ok_shared [OF ok k'] p b f by (simp add: map_absent_def)
    qed
    have offj: "?off j = ?off (same_dex_register_map_as (?es ! j))"
      by (rule shared [OF j present(2) bref])
    have offi: "?off i = ?off (representative ?es i)"
    proof (cases "same_dex_register_map_as (?es ! i) = kNoSameDexMapFound")
      case True
      then show ?thesis
        by (simp add: representative_def)
    next
      case False
      then show ?thesis
        using shared [OF i present(1) False] by (simp add: representative_def)
    qed
    have eq: "?off i = ?off j"
      using offi offj rep rj by simp
    note f = prepared_entry_fields [OF prep j]
    have keep: "st1 = st"
      if "fill_dex_register_map_offset s' (out_encoding out) st (?es' ! j) = Inr (off, st1)"
      for st off st1
      using that bref present(2) f
      by (auto simp: fill_dex_register_map_offset_def map_absent_def and_then_def
          NumSetBits_opt_def split: option.splits if_splits sum.splits)
    show ?thesis
      using eq bref le offj keep by blast
  qed
qed

lemma reset_cursor_run:
  "run reset_cursor_ops (StackMapStream_init kX86) = Inr reset_cursor_stream"
  unfolding reset_cursor_ops_def reset_cursor_stream_def
  by (simp add: op_defs Let_def replicate_2 replicate_3)

lemma reset_cursor_fields:
  "stack_maps reset_cursor_stream =
         [\<lparr> dex_pc = 1, native_pc_code_offset = 4, register_mask = 0,
             sp_mask = None, num_dex_registers = 2, inlining_depth = 1,
             dex_register_locations_start_index = 0, inline_infos_start_index = 0,
             live_dex_registers_mask = Some [True, False], dex_register_map_hash = 14,
             same_dex_register_map_as = 4294967295, stack_mask_index = 0,
             register_mask_index = 0 \<rparr>,
          \<lparr> dex_pc = 2, native_pc_code_offset = 8, register_mask = 0,
             sp_mask = None, num_dex_registers = 2, inlining_depth = 0,
             dex_register_locations_start_index = 2, inline_infos_start_index = 1,
             live_dex_registers_mask = Some [True, False], dex_register_map_hash = 7,
             same_dex_register_map_as = 4294967295, stack_mask_index = 0,
             register_mask_index = 0 \<rparr>]"
  "location_catalog_entries reset_cursor_stream = [DexRegisterLocation kInRegister 5]"
  "dex_register_locations reset_cursor_stream = [0, 0, 0]"
  "inline_infos reset_cursor_stream =
         [\<lparr> ii_dex_pc = 7, ii_method = 0, ii_method_index = 42,
             ii_num_dex_registers = 0, ii_live_dex_registers_mask = None,
             ii_dex_register_locations_start_index = 1 \<rparr>]"
  "stack_masks reset_cursor_stream = []" "register_masks reset_cursor_stream = []"
  "stack_mask_max reset_cursor_stream = - 1" "dex_pc_max reset_cursor_stream = 2"
  "register_mask_max reset_cursor_stream = 0"
  "current_entry reset_cursor_stream = StackMapEntry_default"
  "code_info_encoding reset_cursor_stream = []" "needed_size reset_cursor_stream = 0"
  by (simp_all add: reset_cursor_stream_def)

lemma maps_size_frames_1:
  "maps_size_frames s 1 i z =
     and_then (at_index (inline_infos s) i) (\<lambda>a.
       and_then (ComputeDexRegisterMapSize s (ii_num_dex_registers a)
                   (ii_live_dex_registers_mask a)) (\<lambda>n. Inr (Suc i, z + n)))"
  by simp

lemma reset_cursor_sized: "ComputeDexRegisterMapsSize reset_cursor_stream = Inr 4"
  by (simp add: sizer_defs reset_cursor_fields maps_size_frames_1)

lemma inline_maxima_frames_1:
  "inline_maxima_frames infos 1 i acc =
     and_then (at_index infos i) (\<lambda>a. Inr (Suc i, inline_maxima_update a acc))"
  by simp

lemma reset_cursor_maxima: "ComputeInlineInfoMaxima reset_cursor_stream = Inr (42, 7, 1)"
  by (simp add: ComputeInlineInfoMaxima_def reset_cursor_fields inline_maxima_frames_1
      and_then_def at_index_def inline_maxima_update_def kDexNoIndex_def High32Bits_def
      Low32Bits_def)

lemma reset_cursor_stack_masks:
  "PrepareStackMasks 0 reset_cursor_stream = Inr (1, reset_cursor_stream)"
  by (simp add: PrepareStackMasks_def reset_cursor_stream_def and_then_def Let_def RoundUp_def
      kBitsPerByte_def resize_def emplace_region_def StoreBit_def mask_bit_def IsBitSet_def
      slice_def)

lemma reset_cursor_prepared_run:
  "PrepareForFillIn reset_cursor_stream = Inr (30, reset_cursor_prepared)"
  by (simp add: PrepareForFillIn_def reset_cursor_sized reset_cursor_maxima
      reset_cursor_stack_masks
      ComputeInlineInfoEncoding_def reset_cursor_fields and_then_def Let_def
      PrepareRegisterMasks_def emplace_def
      ComputeMaxNativePcCodeOffset_def ComputeDexRegisterLocationCatalogSize_def
      DexRegisterLocationCatalog_kFixedSize_def StackMapEncoding_SetFromSizes_def
      InlineInfoEncoding_SetFromSizes_def NonHeaderSize_def Compress_def header_fields_def
      MinimumBitsToStore.simps EncodeUnsignedLeb128.simps kDexNoIndex_def
      StackMapEncoding_BitSize_def InlineInfoEncoding_BitSize_def RoundUp_def kBitsPerByte_def
      EntrySize_def IsShortConstantValue_def IsShortStackOffsetValue_def)
     (simp add: resize_def reset_cursor_prepared_def reset_cursor_stream_def)

lemma reset_cursor_prepared_fields:
  "stack_maps reset_cursor_prepared = stack_maps reset_cursor_stream"
  "location_catalog_entries reset_cursor_prepared = location_catalog_entries reset_cursor_stream"
  "dex_register_locations reset_cursor_prepared = dex_register_locations reset_cursor_stream"
  "inline_infos reset_cursor_prepared = inline_infos reset_cursor_stream"
  "stack_masks reset_cursor_prepared = []" "register_masks reset_cursor_prepared = [0, 0]"
  "current_entry reset_cursor_prepared = StackMapEntry_default"
  "code_info_encoding reset_cursor_prepared
     = [0, 4, 1, 1, 2, 4, 2, 3, 1, 1, 1, 1, 0, 1, 0, 1, 6, 4, 1, 3]"
  "needed_size reset_cursor_prepared = 30"
  by (simp_all add: reset_cursor_prepared_def reset_cursor_fields)

lemma reset_cursor_header:
  "Compress reset_cursor_encoding
     = [0, 4, 1, 1, 2, 4, 2, 3, 1, 1, 1, 1, 0, 1, 0, 1, 6, 4, 1, 3]"
  by (simp add: reset_cursor_encoding_def Compress_def header_fields_def
      EncodeUnsignedLeb128.simps)

lemma reset_cursor_extract:
  "ExtractEncoding [0, 4, 1, 1, 2, 4, 2, 3, 1, 1, 1, 1, 0, 1, 0, 1, 6, 4, 1, 3]
     = Inr reset_cursor_encoding"
  using ExtractEncoding_Compress [of reset_cursor_encoding]
  by (simp add: reset_cursor_header)

lemma reset_cursor_encoding_fields:
  "dex_register_map_num_bytes reset_cursor_encoding = 4"
  "location_catalog_num_bytes reset_cursor_encoding = 1"
  "stack_map_num_entries reset_cursor_encoding = 2"
  "stack_mask_num_bits reset_cursor_encoding = 0"
  "stack_mask_num_entries reset_cursor_encoding = 1"
  "register_mask_num_entries reset_cursor_encoding = 1"
  "inline_info_bits (stack_map_encoding reset_cursor_encoding) = 1"
  by (simp_all add: reset_cursor_encoding_def)

lemma upt_1: "[0..<1] = [0]"
  by simp

lemma reset_cursor_loop:
  "fold_r (fill_stack_map reset_cursor_prepared reset_cursor_encoding)
     (stack_maps reset_cursor_prepared)
     \<lparr> next_dex_register_map_offset = 0, next_inline_info_index = 0,
       w_stack_maps = [], w_dex_register_maps = [], w_inline_infos = [],
       w_depths = [] \<rparr> = Inr reset_cursor_filled"
  by (simp add: reset_cursor_prepared_fields reset_cursor_fields reset_cursor_encoding_fields
      fill_defs upt_1 reset_cursor_filled_def)

lemma reset_cursor_prepared_length: "length (stack_maps reset_cursor_prepared) = 2"
  by (simp add: reset_cursor_prepared_fields reset_cursor_fields)

lemma reset_cursor_fill: "FillIn reset_cursor_prepared 30 = Inr reset_cursor_out"
  unfolding reset_cursor_out_def
  by (simp add: reset_cursor_filled_def FillIn_def reset_cursor_extract reset_cursor_loop
      reset_cursor_encoding_fields reset_cursor_prepared_fields(2-)
      reset_cursor_prepared_length reset_cursor_fields
      and_then_def StackMapEntry_default_def DexRegisterLocationCatalog_kFixedSize_def
      EntrySize_def IsShortConstantValue_def RoundUp_def kBitsPerByte_def LoadBit_def
      at_index_def upt_1 Let_def)

text \<open>
  C2 as stated fails. \<^verbatim>\<open>BeginInlineInfoEntry\<close> resets the register cursor and
  \<^verbatim>\<open>EndInlineInfoEntry\<close> does not restore it, so a register added to the stack map after
  an inline frame is folded into the rolling hash a second time at a position already
  used. The two stack maps below have the same register count, the same live mask and
  the same catalog-index slice, but hashes 14 and 7; they land in different buckets,
  neither gets a back-reference, and \<^verbatim>\<open>FillIn\<close> materialises the map twice, at offsets 0
  and 2.
\<close>

theorem identical_maps_distinct_offsets_counterexample:
  "run reset_cursor_ops (StackMapStream_init kX86) = Inr reset_cursor_stream
   \<and> PrepareForFillIn reset_cursor_stream = Inr (30, reset_cursor_prepared)
   \<and> FillIn reset_cursor_prepared 30 = Inr reset_cursor_out
   \<and> num_dex_registers (stack_maps reset_cursor_stream ! 0) = 2
   \<and> num_dex_registers (stack_maps reset_cursor_stream ! 1) = 2
   \<and> live_dex_registers_mask (stack_maps reset_cursor_stream ! 0) = Some [True, False]
   \<and> live_dex_registers_mask (stack_maps reset_cursor_stream ! 1) = Some [True, False]
   \<and> dex_map_slice (dex_register_locations reset_cursor_stream)
         (stack_maps reset_cursor_stream ! 0) = [0]
   \<and> dex_map_slice (dex_register_locations reset_cursor_stream)
         (stack_maps reset_cursor_stream ! 1) = [0]
   \<and> same_dex_maps (dex_register_locations reset_cursor_stream)
         (stack_maps reset_cursor_stream ! 0) (stack_maps reset_cursor_stream ! 1)
   \<and> dex_register_map_hash (stack_maps reset_cursor_stream ! 0) = 14
   \<and> dex_register_map_hash (stack_maps reset_cursor_stream ! 1) = 7
   \<and> out_dex_register_map_offset (out_stack_maps reset_cursor_out ! 0) = 0
   \<and> out_dex_register_map_offset (out_stack_maps reset_cursor_out ! 1) = 2
   \<and> out_dex_register_map_offset (out_stack_maps reset_cursor_out ! 0)
       \<noteq> out_dex_register_map_offset (out_stack_maps reset_cursor_out ! 1)"
  by (simp add: reset_cursor_run reset_cursor_prepared_run reset_cursor_fill)
     (simp add: reset_cursor_fields reset_cursor_out_def reset_cursor_filled_def
      same_dex_maps_def dex_map_slice_def slice_def NumSetBits_opt_def NumSetBits_def)

theorem identical_maps_share_offset_witness:
  "run example_ops (StackMapStream_init kX86) = Inr example_stream
   \<and> PrepareForFillIn example_stream = Inr (42, example_prepared)
   \<and> FillIn example_prepared 42 = Inr example_out
   \<and> length (stack_maps example_stream) \<le> kNoSameDexMapFound
   \<and> (0::nat) < 1 \<and> 1 < length (stack_maps example_stream)
   \<and> same_dex_maps (dex_register_locations example_stream)
         (stack_maps example_stream ! 0) (stack_maps example_stream ! 1)
   \<and> dex_register_map_hash (stack_maps example_stream ! 0)
       = dex_register_map_hash (stack_maps example_stream ! 1)
   \<and> \<not> map_absent (stack_maps example_stream ! 1)
   \<and> out_dex_register_map_offset (out_stack_maps example_out ! 0)
       = out_dex_register_map_offset (out_stack_maps example_out ! 1)
   \<and> same_dex_register_map_as (stack_maps example_stream ! 1) = 0
   \<and> fill_dex_register_map_offset example_prepared (out_encoding example_out) example_filled
         (stack_maps example_prepared ! 1) = Inr (0, example_filled)"
proof -
  have count: "length (stack_maps example_stream) \<le> kNoSameDexMapFound"
    by (simp add: example_fields kNoSameDexMapFound_def)
  have ij: "(0::nat) < 1" and j: "1 < length (stack_maps example_stream)"
    by (simp_all add: example_fields)
  have same: "same_dex_maps (dex_register_locations example_stream)
         (stack_maps example_stream ! 0) (stack_maps example_stream ! 1)"
    and hash: "dex_register_map_hash (stack_maps example_stream ! 0)
       = dex_register_map_hash (stack_maps example_stream ! 1)"
    by (simp_all add: example_fields same_dex_maps_def dex_map_slice_def slice_def
        NumSetBits_opt_def NumSetBits_def)
  have present: "\<not> map_absent (stack_maps example_stream ! 1)"
    by (simp add: example_fields map_absent_def NumSetBits_opt_def NumSetBits_def)
  have step: "fill_dex_register_map_offset example_prepared (out_encoding example_out)
         example_filled (stack_maps example_prepared ! 1) = Inr (0, example_filled)"
    by (simp add: fill_dex_register_map_offset_def example_prepared_fields example_filled_def
        NumSetBits_def kNoSameDexMapFound_def and_then_def at_index_def)
  from identical_maps_share_offset
         [OF example_run example_prepared_run example_fill count ij j] same hash present
  have "out_dex_register_map_offset (out_stack_maps example_out ! 0)
       = out_dex_register_map_offset (out_stack_maps example_out ! 1)"
    and "same_dex_register_map_as (stack_maps example_stream ! 1) \<le> 0"
    by blast+
  then show ?thesis
    using example_run example_prepared_run example_fill count j same hash present step
    by simp
qed

end
